(* ===== verification/Prelude.thy ===== *)
theory Prelude
  imports Main
begin

text \<open>
  Shared vocabulary of the development.  The Python sources lean on a handful of
  containers and on a process-wide logger; they are modelled once here:
  \<^item> an \<open>OrderedDict\<close> is an association list with distinct keys, updated by
    \<open>od_set\<close> (an existing key keeps its position, a new one goes to the end);
  \<^item> \<open>OrderedSet(xs)\<close> is \<open>ordered_set xs\<close> (first occurrences, in order);
  \<^item> a \<open>collections.deque\<close> is a list read left to right, with \<open>dq_pop\<close>
    (\<open>deque.pop()\<close>, right end) and \<open>dq_extendleft\<close> (\<open>deque.extendleft\<close>);
  \<^item> \<open>SlimLogger\<close> and the global \<open>slim_configuration.payload\<close> are one explicit
    \<open>diagnostics\<close> record threaded through the operations;
  \<^item> decoded JSON documents are values of the datatype \<open>json\<close>;
  \<^item> Python exceptions the code raises are values of \<open>py_error\<close>.
\<close>

named_theorems od_simps "facts on ordered dictionaries"

lemma ex_bool_simps [simp]: "\<exists>b::bool. b" "\<exists>b::bool. \<not> b"
  by (rule exI [of _ True], rule TrueI) (rule exI [of _ False], rule notI)

lemma drop_eq_ConsD: "drop n xs = a # ls \<Longrightarrow> ls = drop (Suc n) xs \<and> n < length xs"
proof -
  assume h: "drop n xs = a # ls"
  have "drop (Suc n) xs = tl (drop n xs)" by (simp add: drop_Suc tl_drop)
  moreover have "\<not> length xs \<le> n"
  proof
    assume "length xs \<le> n"
    then have "drop n xs = []" by simp
    with h show False by simp
  qed
  ultimately show ?thesis using h by simp
qed

section \<open>Python exceptions\<close>

datatype py_error = KeyError | IndexError | ValueError string | TypeError string | AssertionError | StopIteration
  | RecursionError | AttributeError

text \<open>\<open>del xs[i]\<close> for a non-negative index: \<open>IndexError\<close> out of range.\<close>

definition py_del :: "nat \<Rightarrow> 'a list \<Rightarrow> py_error + 'a list" where
  "py_del i xs = (if i < length xs then Inr (take i xs @ drop (Suc i) xs) else Inl IndexError)"

section \<open>Folding with exceptions\<close>

text \<open>A loop whose body may raise: the first exception ends it.\<close>

fun foldM :: "('a \<Rightarrow> 'b \<Rightarrow> 'e + 'a) \<Rightarrow> 'a \<Rightarrow> 'b list \<Rightarrow> 'e + 'a" where
  "foldM f a [] = Inr a"
| "foldM f a (x # xs) = (case f a x of Inl e \<Rightarrow> Inl e | Inr a' \<Rightarrow> foldM f a' xs)"

lemma sum_case_Inl_Inr [simp]: "(case x of Inl e \<Rightarrow> Inl e | Inr m \<Rightarrow> Inr m) = x"
  by (cases x) simp_all

text \<open>An invariant of every step holds of a loop that returns normally; a property that
  each step establishes for its own item and that later steps keep holds for all items.\<close>

lemma foldM_Cons_Inr:
  "foldM f a (x # xs) = Inr b \<Longrightarrow> \<exists>a'. f a x = Inr a' \<and> foldM f a' xs = Inr b"
  by (cases "f a x") simp_all

lemma foldM_invariant:
  "foldM f a xs = Inr b \<Longrightarrow> P a \<Longrightarrow> (\<And>a x a'. x \<in> set xs \<Longrightarrow> f a x = Inr a' \<Longrightarrow> P a \<Longrightarrow> P a') \<Longrightarrow> P b"
proof (induction xs arbitrary: a)
  case Nil
  then show ?case by simp
next
  case (Cons x xs)
  from foldM_Cons_Inr [OF Cons.prems(1)] obtain a' where a': "f a x = Inr a'" "foldM f a' xs = Inr b"
    by blast
  have "P a'" using Cons.prems(3) [of x a a'] a'(1) Cons.prems(2) by simp
  show ?case
  proof (rule Cons.IH [OF a'(2) \<open>P a'\<close>])
    fix c z c' assume "z \<in> set xs" "f c z = Inr c'" "P c"
    then show "P c'" using Cons.prems(3) [of z c c'] by simp
  qed
qed

lemma foldM_Inr_member: "foldM f a xs = Inr b \<Longrightarrow> x \<in> set xs \<Longrightarrow> \<exists>c c'. f c x = Inr c'"
  by (induction xs arbitrary: a) (auto split: sum.splits)

lemma foldM_Inl_member: "foldM f a xs = Inl e \<Longrightarrow> \<exists>c x. x \<in> set xs \<and> f c x = Inl e"
  by (induction xs arbitrary: a) (simp, fastforce split: sum.splits)

lemma foldM_stable:
  "foldM f a xs = Inr b \<Longrightarrow> (\<And>a x a'. x \<in> set xs \<Longrightarrow> f a x = Inr a' \<Longrightarrow> Q x a') \<Longrightarrow>
   (\<And>a x a' y. x \<in> set xs \<Longrightarrow> f a x = Inr a' \<Longrightarrow> Q y a \<Longrightarrow> Q y a') \<Longrightarrow> \<forall>y \<in> set xs. Q y b"
proof (induction xs arbitrary: a)
  case Nil
  then show ?case by simp
next
  case (Cons x xs)
  from foldM_Cons_Inr [OF Cons.prems(1)] obtain a' where a': "f a x = Inr a'" "foldM f a' xs = Inr b"
    by blast
  have "Q x a'" using Cons.prems(2) [of x a a'] a'(1) by simp
  have "Q x b"
  proof (rule foldM_invariant [where P = "Q x", OF a'(2) \<open>Q x a'\<close>])
    fix c z c' assume "z \<in> set xs" "f c z = Inr c'" "Q x c"
    then show "Q x c'" using Cons.prems(3) [of z c c' x] by simp
  qed
  moreover have "\<forall>y \<in> set xs. Q y b"
  proof (rule Cons.IH [OF a'(2)])
    fix c z c' assume "z \<in> set xs" "f c z = Inr c'"
    then show "Q z c'" using Cons.prems(2) [of z c c'] by simp
  next
    fix c z c' y assume "z \<in> set xs" "f c z = Inr c'" "Q y c"
    then show "Q y c'" using Cons.prems(3) [of z c c' y] by simp
  qed
  ultimately show ?case by simp
qed

text \<open>A list comprehension whose element expression may raise.\<close>

fun mapM :: "('a \<Rightarrow> 'e + 'b) \<Rightarrow> 'a list \<Rightarrow> 'e + 'b list" where
  "mapM f [] = Inr []"
| "mapM f (x # xs) = (case f x of Inl e \<Rightarrow> Inl e | Inr y \<Rightarrow> map_sum id (Cons y) (mapM f xs))"

lemma mapM_Inr: "(\<And>x. x \<in> set xs \<Longrightarrow> f x = Inr (g x)) \<Longrightarrow> mapM f xs = Inr (map g xs)"
  by (induction xs) simp_all

lemma mapM_cong [fundef_cong]:
  "xs = ys \<Longrightarrow> (\<And>x. x \<in> set ys \<Longrightarrow> f x = g x) \<Longrightarrow> mapM f xs = mapM g ys"
  by (induction ys arbitrary: xs) (auto split: sum.splits)

lemma foldM_cong [fundef_cong]:
  "xs = ys \<Longrightarrow> a = b \<Longrightarrow> (\<And>a x. x \<in> set ys \<Longrightarrow> f a x = g a x) \<Longrightarrow> foldM f a xs = foldM g b ys"
  by (induction g b ys arbitrary: xs a rule: foldM.induct) (auto split: sum.splits)

section \<open>Ordered dictionaries as association lists\<close>

type_synonym ('k, 'v) odict = "('k \<times> 'v) list"

abbreviation od_keys :: "('k, 'v) odict \<Rightarrow> 'k list" where
  "od_keys xs \<equiv> map fst xs"

abbreviation od_get :: "('k, 'v) odict \<Rightarrow> 'k \<Rightarrow> 'v option" where
  "od_get xs \<equiv> map_of xs"

text \<open>\<open>d[k] = v\<close>: overwrite in place, or append a new entry at the end.\<close>

fun od_set :: "'k \<Rightarrow> 'v \<Rightarrow> ('k, 'v) odict \<Rightarrow> ('k, 'v) odict" where
  "od_set k v [] = [(k, v)]"
| "od_set k v ((k', v') # xs) = (if k = k' then (k, v) # xs else (k', v') # od_set k v xs)"

text \<open>\<open>del d[k]\<close> on a key that is present.\<close>

definition od_del :: "'k \<Rightarrow> ('k, 'v) odict \<Rightarrow> ('k, 'v) odict" where
  "od_del k xs = filter (\<lambda>(k', _). k' \<noteq> k) xs"

lemma map_of_od_set [simp, od_simps]: "map_of (od_set k v xs) = (map_of xs)(k \<mapsto> v)"
  by (induction k v xs rule: od_set.induct) (auto simp: fun_eq_iff)

lemma od_keys_od_set [od_simps]:
  "od_keys (od_set k v xs) = (if k \<in> set (od_keys xs) then od_keys xs else od_keys xs @ [k])"
  by (induction k v xs rule: od_set.induct) auto

lemma set_od_keys_od_set [simp, od_simps]: "fst ` set (od_set k v xs) = insert k (fst ` set xs)"
  by (induction k v xs rule: od_set.induct) auto

lemma distinct_od_set [simp, od_simps]: "distinct (od_keys xs) \<Longrightarrow> distinct (od_keys (od_set k v xs))"
  by (simp add: od_keys_od_set)

lemma set_od_set_values: "snd ` set (od_set k v xs) \<subseteq> insert v (snd ` set xs)"
  by (induction k v xs rule: od_set.induct) auto

lemma set_od_set [od_simps]: "set (od_set k v xs) \<subseteq> insert (k, v) (set xs)"
  by (induction k v xs rule: od_set.induct) auto

lemma od_set_new [od_simps]: "k \<notin> fst ` set xs \<Longrightarrow> od_set k v xs = xs @ [(k, v)]"
  by (induction k v xs rule: od_set.induct) auto

lemma od_set_present [od_simps]: "k \<in> set (od_keys xs) \<Longrightarrow> od_keys (od_set k v xs) = od_keys xs"
  by (simp add: od_keys_od_set)

lemma map_of_od_del [simp, od_simps]: "map_of (od_del k xs) = (map_of xs)(k := None)"
  by (induction xs) (auto simp: od_del_def fun_eq_iff split: prod.splits)

lemma set_od_keys_od_del [simp, od_simps]: "fst ` set (od_del k xs) = fst ` set xs - {k}"
  by (induction xs) (auto simp: od_del_def split: prod.splits)

section \<open>OrderedSet\<close>

definition ordered_set :: "'a list \<Rightarrow> 'a list" where
  "ordered_set xs = rev (remdups (rev xs))"

lemma set_ordered_set [simp]: "set (ordered_set xs) = set xs"
  by (simp add: ordered_set_def)

lemma distinct_ordered_set [simp]: "distinct (ordered_set xs)"
  by (simp add: ordered_set_def)

lemma remdups_snoc: "remdups (ys @ [x]) = filter (\<lambda>y. y \<noteq> x) (remdups ys) @ [x]"
  by (induction ys) auto

lemma ordered_set_Cons: "ordered_set (x # xs) = x # filter (\<lambda>y. y \<noteq> x) (ordered_set xs)"
  by (simp add: ordered_set_def remdups_snoc rev_filter)

lemma ordered_set_filter: "ordered_set (filter P xs) = filter P (ordered_set xs)"
  by (simp add: ordered_set_def remdups_filter rev_filter)

section \<open>deque\<close>

text \<open>A deque is written left to right.  \<open>pop()\<close> takes the right end.\<close>

definition dq_pop :: "'a list \<Rightarrow> 'a \<times> 'a list" where
  "dq_pop q = (last q, butlast q)"

text \<open>\<open>extendleft(xs)\<close> pushes the elements of \<open>xs\<close> one by one onto the left end,
  so that they end up reversed.\<close>

definition dq_extendleft :: "'a list \<Rightarrow> 'a list \<Rightarrow> 'a list" where
  "dq_extendleft xs q = rev xs @ q"

lemma dq_pop_rev: "q \<noteq> [] \<Longrightarrow> dq_pop q = (hd (rev q), rev (tl (rev q)))"
  by (simp add: dq_pop_def hd_rev) (metis butlast_rev rev_rev_ident)

lemma rev_dq_extendleft [simp]: "rev (dq_extendleft xs q) = rev q @ xs"
  by (simp add: dq_extendleft_def)

lemma dq_pop_set: "q \<noteq> [] \<Longrightarrow> dq_pop q = (a, q') \<Longrightarrow> set q = insert a (set q')"
  by (induction q arbitrary: q' rule: rev_induct) (auto simp: dq_pop_def)

section \<open>Python truthiness of optional strings\<close>

definition py_truthy :: "string option \<Rightarrow> bool" where
  "py_truthy s = (case s of None \<Rightarrow> False | Some x \<Rightarrow> x \<noteq> [])"

lemma py_truthy_simps [simp]: "\<not> py_truthy None" "py_truthy (Some x) \<longleftrightarrow> x \<noteq> []"
  by (simp_all add: py_truthy_def)

section \<open>Logger and payload\<close>

text \<open>
  The messages the modelled code sends to \<open>SlimLogger\<close>; errors count towards
  \<open>SlimLogger.error_count()\<close>, warnings do not.  \<open>SlimLogger.message(level, ...)\<close> carries
  the logging level, and counts as an error from \<open>logging.ERROR\<close> (40) up.
\<close>

datatype diag =
    WarnSkipOptional string
  | WarnSkipDynamic string
  | ErrStaticNotFound string
  | ErrOutsideRange string string
  | ErrCyclic string
  | ErrConflicted string
  | ErrVersionSelected string string
  | ErrDuplicateSpecName string
  | ErrStillRequired string "string list"
  | WarnNotInstalled string
  | WarnNonTargeted string
  | WarnTargetedMissing string
  | WarnUntargetedUpdate string string
  | WarnDuplicateServerClass string
  | ErrUnknownAction string
  | ErrMessage string
  | MsgUnreferenced nat string string "string list"

fun is_error :: "diag \<Rightarrow> bool" where
  "is_error (WarnSkipOptional _) = False"
| "is_error (WarnSkipDynamic _) = False"
| "is_error (WarnNotInstalled _) = False"
| "is_error (WarnNonTargeted _) = False"
| "is_error (WarnTargetedMissing _) = False"
| "is_error (WarnUntargetedUpdate _ _) = False"
| "is_error (WarnDuplicateServerClass _) = False"
| "is_error (MsgUnreferenced level _ _ _) = (40 \<le> level)"
| "is_error _ = True"

datatype status = STATUS_OK | STATUS_ERROR_MISSING_DEPENDENCIES | STATUS_ERROR_DEPENDENCY_REQUIRED

record diagnostics =
  dg_log :: "diag list"
  dg_missing_optional :: "string list"
  dg_missing :: "string list"
  dg_dependency_requirements :: "string list"
  dg_status :: status

definition diagnostics0 :: diagnostics where
  "diagnostics0 = \<lparr>dg_log = [], dg_missing_optional = [], dg_missing = [],
     dg_dependency_requirements = [], dg_status = STATUS_OK\<rparr>"

definition log :: "diag \<Rightarrow> diagnostics \<Rightarrow> diagnostics" where
  "log m dg = dg\<lparr>dg_log := dg_log dg @ [m]\<rparr>"

definition error_count :: "diagnostics \<Rightarrow> nat" where
  "error_count dg = length (filter is_error (dg_log dg))"

text \<open>Messages an external constructor sends to the logger, in order.\<close>

definition log_all :: "diag list \<Rightarrow> diagnostics \<Rightarrow> diagnostics" where
  "log_all ms dg = dg\<lparr>dg_log := dg_log dg @ ms\<rparr>"

lemma error_count_log_all [simp]:
  "error_count (log_all ms dg) = error_count dg + length (filter is_error ms)"
  by (simp add: error_count_def log_all_def)

lemma log_all_Nil [simp]: "log_all [] dg = dg"
  by (simp add: log_all_def)

lemma log_all_append: "log_all ms2 (log_all ms1 dg) = log_all (ms1 @ ms2) dg"
  by (simp add: log_all_def)

lemma error_in_log: "x \<in> set (dg_log dg) \<Longrightarrow> is_error x \<Longrightarrow> error_count dg \<noteq> 0"
  by (auto simp: error_count_def filter_empty_conv)

lemma error_count_log [simp]:
  "error_count (log m dg) = error_count dg + (if is_error m then 1 else 0)"
  by (simp add: error_count_def log_def)

lemma error_count_upd [simp]:
  "error_count (dg\<lparr>dg_missing_optional := a\<rparr>) = error_count dg"
  "error_count (dg\<lparr>dg_missing := b\<rparr>) = error_count dg"
  "error_count (dg\<lparr>dg_status := c\<rparr>) = error_count dg"
  "error_count (dg\<lparr>dg_dependency_requirements := d\<rparr>) = error_count dg"
  by (simp_all add: error_count_def)

lemma error_count0 [simp]: "error_count diagnostics0 = 0"
  by (simp add: error_count_def diagnostics0_def)

section \<open>Decoded JSON\<close>

text \<open>JSON values as \<open>json.load\<close> returns them (an object is an ordered dictionary,
  \<open>null\<close> is \<open>None\<close>), and the frozensets of strings the schema converters build.\<close>

datatype json =
    JNull
  | JBool bool
  | JNum int
  | JStr string
  | JArr "json list"
  | JObj "(string \<times> json) list"
  | JSet "string set"

text \<open>The dictionary \<open>json.load\<close> builds from the members of an object, in order: a
  repeated name keeps its first position and takes its last value.\<close>

definition json_object :: "(string \<times> 'a) list \<Rightarrow> (string, 'a) odict" where
  "json_object kvs = foldl (\<lambda>m (k, v). od_set k v m) [] kvs"

lemma foldl_od_set_distinct:
  "distinct (map fst kvs) \<Longrightarrow> fst ` set kvs \<inter> fst ` set acc = {} \<Longrightarrow>
   foldl (\<lambda>m (k, v). od_set k v m) acc kvs = acc @ kvs"
proof (induction kvs arbitrary: acc)
  case (Cons kv kvs)
  obtain k v where kv: "kv = (k, v)" by (cases kv)
  with Cons.prems have "k \<notin> fst ` set acc" by auto
  then have "od_set k v acc = acc @ [(k, v)]" by (rule od_set_new)
  moreover have "fst ` set kvs \<inter> fst ` set (acc @ [(k, v)]) = {}" using Cons.prems kv by auto
  ultimately show ?case using Cons kv by simp
qed simp

lemma json_object_distinct: "distinct (map fst kvs) \<Longrightarrow> json_object kvs = kvs"
  using foldl_od_set_distinct [of kvs "[]"] by (simp add: json_object_def)

lemma distinct_json_object [simp]: "distinct (map fst (json_object kvs))"
proof -
  have "distinct (map fst acc) \<Longrightarrow> distinct (map fst (foldl (\<lambda>m (k, v). od_set k v m) acc kvs))" for acc
    by (induction kvs arbitrary: acc) auto
  then show ?thesis by (simp add: json_object_def)
qed

section \<open>Relations\<close>

text \<open>Reachability along a finite relation: images of the reflexive transitive closure, a
  set closed under successors contains everything reachable, and on an acyclic relation the
  number of nodes reachable in one or more steps drops along every edge.\<close>

lemma rtrancl_Image_absorb:
  assumes "A \<subseteq> R\<^sup>* `` B"
  shows "R\<^sup>* `` A \<subseteq> R\<^sup>* `` B"
proof
  fix x assume "x \<in> R\<^sup>* `` A"
  then obtain y where y: "y \<in> A" "(y, x) \<in> R\<^sup>*" by blast
  with assms obtain z where "z \<in> B" "(z, y) \<in> R\<^sup>*" by blast
  with y(2) show "x \<in> R\<^sup>* `` B" by (blast intro: rtrancl_trans)
qed

lemma closed_reach:
  assumes "\<forall>x \<in> S. R `` {x} \<subseteq> S" "r \<in> S"
  shows "R\<^sup>* `` {r} \<subseteq> S"
proof
  fix y assume "y \<in> R\<^sup>* `` {r}"
  then have "(r, y) \<in> R\<^sup>*" by simp
  then show "y \<in> S" by induction (use assms in blast)+
qed

lemma trancl_card_less:
  assumes fin: "finite E" and acyc: "acyclic E" and e: "(a, s) \<in> E"
  shows "card (E\<^sup>+ `` {s}) < card (E\<^sup>+ `` {a})"
proof (rule psubset_card_mono)
  have "E\<^sup>+ `` {a} \<subseteq> snd ` E\<^sup>+" by force
  moreover have "finite (snd ` E\<^sup>+)" using fin by (simp add: finite_trancl)
  ultimately show "finite (E\<^sup>+ `` {a})" by (rule finite_subset)
  have "E\<^sup>+ `` {s} \<subseteq> E\<^sup>+ `` {a}" using e by (auto intro: trancl_into_trancl2)
  moreover have "s \<in> E\<^sup>+ `` {a}" using e by auto
  moreover have "s \<notin> E\<^sup>+ `` {s}" using acyc by (simp add: acyclic_def)
  ultimately show "E\<^sup>+ `` {s} \<subset> E\<^sup>+ `` {a}" by blast
qed

end
