(* ===== verification/DeploymentSpec.thy ===== *)
theory DeploymentSpec
  imports Prelude
begin

text \<open>
  \<open>AppDeploymentSpecification\<close> (src/slim/app/_deployment.py, lines 813--1062) and the
  input-group algebra \<open>AppDependencyGraph._union_of\<close> (lines 451--453).  Workloads and
  input groups are Python \<open>frozenset\<close>s of strings; the two sentinels are
  \<open>all_input_groups = frozenset('*')\<close> and \<open>no_input_groups = frozenset()\<close>.
  The converters that the JSON schema applies to a decoded specification are modelled
  one by one, with every \<open>raise ValueError\<close> a \<open>Inl\<close> value.  The static method
  \<open>get_deployment_specifications\<close> and \<open>from_forwarder_workloads\<close> are modelled
  with their list mutations written out (\<open>del\<close> by index may raise \<open>IndexError\<close>).
\<close>

section \<open>Input-group sets and their union\<close>

definition all_input_groups :: "string set" where
  "all_input_groups = {''*''}"

definition no_input_groups :: "string set" where
  "no_input_groups = {}"

definition all_workloads :: "string set" where
  "all_workloads = {''searchHead'', ''indexer'', ''forwarder''}"

definition union_of :: "string set \<Rightarrow> string set \<Rightarrow> string set" where
  "union_of fg1 fg2 = (if ''*'' \<in> fg1 \<or> ''*'' \<in> fg2 then all_input_groups else fg1 \<union> fg2)"

text \<open>\<open>is_all_input_groups\<close> and \<open>are_no_input_groups\<close>; an absent value is \<open>None\<close>.\<close>

definition is_all_input_groups :: "string set option \<Rightarrow> bool" where
  "is_all_input_groups g = (g = None \<or> g = Some all_input_groups)"

definition are_no_input_groups :: "string set option \<Rightarrow> bool" where
  "are_no_input_groups g = (g = Some no_input_groups)"

text \<open>The form \<open>InputGroupsConverter\<close> produces: a set holding the wildcard is the wildcard.\<close>

definition ig_normal :: "string set \<Rightarrow> bool" where
  "ig_normal g \<longleftrightarrow> (''*'' \<in> g \<longrightarrow> g = all_input_groups)"

section \<open>Deployment specifications\<close>

record deployment_spec =
  ds_name :: string
  ds_workload :: "string set"
  ds_input_groups :: "string set option"

text \<open>\<open>SafeFilenameConverter\<close>: \<open>re.match(r'[-._ a-zA-Z0-9]+$', value)\<close>.  Python's
  \<open>$\<close> matches at the end of the string and also just before a final newline.\<close>

definition safe_char :: "char \<Rightarrow> bool" where
  "safe_char c = (let n = of_char c :: nat in
     c \<in> set ''-._ '' \<or> (97 \<le> n \<and> n \<le> 122) \<or> (65 \<le> n \<and> n \<le> 90) \<or> (48 \<le> n \<and> n \<le> 57))"

definition safe_filename_match :: "string \<Rightarrow> bool" where
  "safe_filename_match v =
     (let t = (if v \<noteq> [] \<and> last v = CHR 0x0A then butlast v else v) in t \<noteq> [] \<and> list_all safe_char t)"

definition convert_safe_filename :: "string \<Rightarrow> py_error + string" where
  "convert_safe_filename v =
     (if safe_filename_match v then Inr v
      else Inl (ValueError ''Illegal characters in deployment specification.name''))"

text \<open>\<open>WorkloadConverter\<close>: every element must name a workload.\<close>

definition convert_workload :: "string list \<Rightarrow> py_error + string set" where
  "convert_workload v =
     (if set v \<subseteq> {''forwarder'', ''indexer'', ''searchHead''} then Inr (set v)
      else Inl (ValueError ''Deployment specification.workload is invalid''))"

text \<open>\<open>InputGroupsConverter\<close>.\<close>

definition convert_input_groups :: "string list \<Rightarrow> string set" where
  "convert_input_groups v =
     (if v = [] then no_input_groups
      else if ''*'' \<in> set v then all_input_groups else set v)"

text \<open>\<open>Converter\<close>, applied to the whole object after its fields.\<close>

definition convert_spec :: "deployment_spec \<Rightarrow> py_error + deployment_spec" where
  "convert_spec v =
     (case ds_input_groups v of
        None \<Rightarrow> Inr (if ''forwarder'' \<in> ds_workload v then v\<lparr>ds_input_groups := Some all_input_groups\<rparr> else v)
      | Some _ \<Rightarrow> if ''forwarder'' \<notin> ds_workload v
                 then Inl (ValueError ''Deployment specification includes inputGroups, but does not include the forwarder workload'')
                 else Inr v)"

text \<open>The schema \<open>AppDeploymentSpecification.schema\<close>: the three field converters, then
  the object converter.  The first failing converter is the error reported.\<close>

definition decode_spec :: "string \<Rightarrow> string list \<Rightarrow> string list option \<Rightarrow> py_error + deployment_spec" where
  "decode_spec name workload input_groups =
     (case convert_safe_filename name of
        Inl e \<Rightarrow> Inl e
      | Inr n \<Rightarrow> (case convert_workload workload of
          Inl e \<Rightarrow> Inl e
        | Inr w \<Rightarrow> convert_spec \<lparr>ds_name = n, ds_workload = w,
                     ds_input_groups = map_option convert_input_groups input_groups\<rparr>))"

text \<open>What the schema promises of a decoded specification.\<close>

definition spec_wf :: "deployment_spec \<Rightarrow> bool" where
  "spec_wf s \<longleftrightarrow> safe_filename_match (ds_name s)
     \<and> ds_workload s \<subseteq> all_workloads
     \<and> (ds_input_groups s \<noteq> None \<longleftrightarrow> ''forwarder'' \<in> ds_workload s)
     \<and> (\<forall>g. ds_input_groups s = Some g \<longrightarrow> ig_normal g)"

section \<open>from_forwarder_workloads\<close>

text \<open>The closure \<open>update()\<close> of the loop, with its loop variables as parameters.\<close>

definition ffw_update :: "string \<Rightarrow> string \<Rightarrow> (string, deployment_spec) odict \<Rightarrow> (string, deployment_spec) odict" where
  "ffw_update input_group server_class d =
     (let s = (case map_of d server_class of
                 None \<Rightarrow> \<lparr>ds_name = server_class, ds_workload = {''forwarder''},
                          ds_input_groups = Some {input_group}\<rparr>
               | Some s \<Rightarrow> s\<lparr>ds_input_groups := map_option (insert input_group) (ds_input_groups s)\<rparr>);
          s' = (if server_class \<in> {''_search_heads'', ''_indexers''}
                then s\<lparr>ds_workload := insert server_class (ds_workload s)\<rparr> else s)
      in od_set server_class s' d)"

fun ffw_list :: "string \<Rightarrow> json list \<Rightarrow> (string, deployment_spec) odict \<Rightarrow> py_error + (string, deployment_spec) odict" where
  "ffw_list ig [] d = Inr d"
| "ffw_list ig (JStr sc # xs) d = ffw_list ig xs (ffw_update ig sc d)"
| "ffw_list ig (_ # xs) d = Inl (ValueError ''Expected a server class name'')"

fun ffw_entries :: "(string \<times> json) list \<Rightarrow> (string, deployment_spec) odict \<Rightarrow> py_error + (string, deployment_spec) odict" where
  "ffw_entries [] d = Inr d"
| "ffw_entries ((ig, JStr sc) # rest) d = ffw_entries rest (ffw_update ig sc d)"
| "ffw_entries ((ig, JArr scs) # rest) d =
     (case ffw_list ig scs d of Inl e \<Rightarrow> Inl e | Inr d' \<Rightarrow> ffw_entries rest d')"
| "ffw_entries ((ig, _) # rest) d =
     Inl (ValueError ''Expected a server class name or a list of server class names'')"

definition from_forwarder_workloads :: "(string \<times> json) list \<Rightarrow> py_error + deployment_spec list" where
  "from_forwarder_workloads fw = (case ffw_entries fw [] of Inl e \<Rightarrow> Inl e | Inr d \<Rightarrow> Inr (map snd d))"

section \<open>get_deployment_specifications (static)\<close>

definition spec_plain :: "string \<Rightarrow> string set \<Rightarrow> deployment_spec" where
  "spec_plain n w = \<lparr>ds_name = n, ds_workload = w, ds_input_groups = None\<rparr>"

text \<open>First loop of the combining branch: the union of the input groups of the
  specifications that target \<open>searchHead\<close> or \<open>indexer\<close> and carry input groups,
  and the indices to remove (\<open>enumerate\<close> counts from \<open>i\<close>).\<close>

fun combine_collect :: "nat \<Rightarrow> deployment_spec list \<Rightarrow> string set \<Rightarrow> nat list \<Rightarrow> string set \<times> nat list" where
  "combine_collect i [] ig rl = (ig, rl)"
| "combine_collect i (s # ss) ig rl =
     (if ds_workload s \<inter> {''searchHead'', ''indexer''} = {} then combine_collect (Suc i) ss ig rl
      else case ds_input_groups s of
             None \<Rightarrow> combine_collect (Suc i) ss ig rl
           | Some g \<Rightarrow> combine_collect (Suc i) ss (ig \<union> g) (rl @ [i]))"

text \<open>\<open>for index in remove_list: del deployment_specifications[index]\<close>.\<close>

fun del_all :: "nat list \<Rightarrow> 'a list \<Rightarrow> py_error + 'a list" where
  "del_all [] xs = Inr xs"
| "del_all (i # is) xs = (case py_del i xs of Inl e \<Rightarrow> Inl e | Inr xs' \<Rightarrow> del_all is xs')"

text \<open>The \<open>update_list\<close> loop of the separating branch; \<open>None\<close> is \<open>update_list = None\<close>.\<close>

fun shrink_update_list :: "deployment_spec list \<Rightarrow> string set \<Rightarrow> string set option" where
  "shrink_update_list [] ul = Some ul"
| "shrink_update_list (s # ss) ul =
     (let w = ds_workload s \<inter> ul in
      if card w = 0 then shrink_update_list ss ul
      else if card w = card ul then None
      else shrink_update_list ss (ul - w))"

definition default_specs :: "string set \<Rightarrow> deployment_spec list" where
  "default_specs ul =
     (if ''searchHead'' \<in> ul then [spec_plain ''_search_heads'' {''searchHead''}] else [])
     @ (if ''indexer'' \<in> ul then [spec_plain ''_indexers'' {''indexer''}] else [])
     @ (if ''forwarder'' \<in> ul then [spec_plain ''_forwarders'' {''forwarder''}] else [])"

text \<open>The specification appended by the combining branch (lines 916--924).\<close>

definition search_head_indexers :: "string set \<Rightarrow> deployment_spec" where
  "search_head_indexers ig =
     (if ig = {} then spec_plain ''_search_head_indexers'' {''searchHead'', ''indexer''}
      else \<lparr>ds_name = ''_search_head_indexers'', ds_workload = {''searchHead'', ''indexer'', ''forwarder''},
             ds_input_groups = Some ig\<rparr>)"

definition gds_combine :: "deployment_spec list \<Rightarrow> py_error + deployment_spec list" where
  "gds_combine specs =
     (if specs = [] then
        Inr (specs @ [spec_plain ''_search_head_indexers'' {''searchHead'', ''indexer''},
                      spec_plain ''_forwarders'' {''forwarder''}])
      else (case combine_collect 0 specs {} [] of (ig, rl) \<Rightarrow>
        (case del_all rl specs of
           Inl e \<Rightarrow> Inl e
         | Inr specs' \<Rightarrow> Inr (specs' @ [search_head_indexers ig]))))"

definition gds_separate :: "deployment_spec list \<Rightarrow> deployment_spec list option \<Rightarrow> deployment_spec list" where
  "gds_separate specs fw =
     (let ul = (if specs = [] \<and> fw = None then Some {''searchHead'', ''indexer'', ''forwarder''}
                else shrink_update_list specs {''searchHead'', ''indexer''})
      in specs @ (case ul of None \<Rightarrow> [] | Some u \<Rightarrow> default_specs u)
               @ (case fw of None \<Rightarrow> [] | Some f \<Rightarrow> f))"

text \<open>The final loop: every repeated name is reported as an error.\<close>

fun report_duplicate_names :: "deployment_spec list \<Rightarrow> string set \<Rightarrow> diagnostics \<Rightarrow> diagnostics" where
  "report_duplicate_names [] seen dg = dg"
| "report_duplicate_names (s # ss) seen dg =
     report_duplicate_names ss (insert (ds_name s) seen)
       (if ds_name s \<in> seen then log (ErrDuplicateSpecName (ds_name s)) dg else dg)"

definition get_deployment_specifications ::
  "deployment_spec list \<Rightarrow> bool \<Rightarrow> deployment_spec list option \<Rightarrow> diagnostics \<Rightarrow> (py_error + deployment_spec list) \<times> diagnostics" where
  "get_deployment_specifications specs combine fw dg =
     (case (if combine then gds_combine specs else Inr (gds_separate specs fw)) of
        Inl e \<Rightarrow> (Inl e, dg)
      | Inr r \<Rightarrow> (Inr r, report_duplicate_names r {} dg))"

section \<open>Properties of the input-group algebra\<close>

lemma star_notin_union: "''*'' \<notin> a \<Longrightarrow> ''*'' \<notin> b \<Longrightarrow> union_of a b = a \<union> b"
  by (simp add: union_of_def)

lemma ig_normal_all [simp]: "ig_normal all_input_groups"
  by (simp add: ig_normal_def)

lemma star_in_union_of: "''*'' \<in> union_of a b \<longleftrightarrow> ''*'' \<in> a \<or> ''*'' \<in> b"
  by (simp add: union_of_def all_input_groups_def)

text \<open>C1: the algebra of \<open>_union_of\<close>: the wildcard absorbs (\<open>union_of(ALL, X) == ALL\<close> on
  either side), the operation is commutative and associative, \<open>union_of(NONE, NONE) == NONE\<close>,
  and its result is always in normal form, whatever its arguments.\<close>

theorem union_of_algebra:
  "union_of all_input_groups x = all_input_groups \<and> union_of x all_input_groups = all_input_groups \<and>
   union_of a b = union_of b a \<and> union_of (union_of a b) c = union_of a (union_of b c) \<and>
   union_of no_input_groups no_input_groups = no_input_groups \<and> ig_normal (union_of a b)"
  by (auto simp: union_of_def all_input_groups_def no_input_groups_def ig_normal_def)

text \<open>On normal sets \<open>union_of\<close> is idempotent (on a set holding the wildcard and another
  group it is not: it collapses to the wildcard).\<close>

lemma union_of_idem: "ig_normal a \<Longrightarrow> union_of a a = a"
  by (auto simp: ig_normal_def union_of_def)

text \<open>C2: a deployment specification decoded through the schema is well formed: a safe
  name, known workloads, input groups present exactly when the forwarder workload is
  targeted, and in normal form.\<close>

theorem decode_spec_wf: "decode_spec n w g = Inr s \<Longrightarrow> spec_wf s"
  by (auto simp: decode_spec_def convert_safe_filename_def convert_workload_def convert_spec_def
      spec_wf_def all_workloads_def convert_input_groups_def ig_normal_def no_input_groups_def
      split: sum.splits option.splits if_splits)

theorem decode_spec_wf_witness:
  "decode_spec ''web'' [''forwarder''] None = Inr \<lparr>ds_name = ''web'', ds_workload = {''forwarder''}, ds_input_groups = Some {''*''}\<rparr>
   \<and> spec_wf \<lparr>ds_name = ''web'', ds_workload = {''forwarder''}, ds_input_groups = Some {''*''}\<rparr>"
proof -
  have d: "decode_spec ''web'' [''forwarder''] None = Inr \<lparr>ds_name = ''web'', ds_workload = {''forwarder''}, ds_input_groups = Some {''*''}\<rparr>"
    by (simp add: decode_spec_def convert_safe_filename_def safe_filename_match_def safe_char_def
        convert_workload_def convert_spec_def all_input_groups_def)
  show ?thesis using d decode_spec_wf [OF d] by simp
qed

text \<open>Input groups without the forwarder workload are refused with a ValueError.\<close>

theorem decode_spec_input_groups_need_forwarder:
  "convert_safe_filename n = Inr n \<Longrightarrow> convert_workload w = Inr ws \<Longrightarrow> ''forwarder'' \<notin> ws \<Longrightarrow>
   \<exists>m. decode_spec n w (Some g) = Inl (ValueError m)"
  by (simp add: decode_spec_def convert_spec_def)

theorem decode_spec_input_groups_need_forwarder_witness:
  "\<exists>m. decode_spec ''sh'' [''searchHead''] (Some [''a'']) = Inl (ValueError m)"
proof -
  have n: "convert_safe_filename ''sh'' = Inr ''sh''"
    by (simp add: convert_safe_filename_def safe_filename_match_def safe_char_def)
  have w: "convert_workload [''searchHead''] = Inr {''searchHead''}"
    by (simp add: convert_workload_def)
  show ?thesis using decode_spec_input_groups_need_forwarder [OF n w] by simp
qed

section \<open>Properties of from_forwarder_workloads\<close>

definition ffw_ok :: "string \<Rightarrow> deployment_spec \<Rightarrow> bool" where
  "ffw_ok k s \<longleftrightarrow> ds_name s = k \<and> ds_input_groups s \<noteq> None \<and>
     ds_workload s = (if k \<in> {''_search_heads'', ''_indexers''} then {''forwarder'', k} else {''forwarder''})"

definition ffw_inv :: "(string, deployment_spec) odict \<Rightarrow> bool" where
  "ffw_inv d \<longleftrightarrow> distinct (od_keys d) \<and> (\<forall>(k, s) \<in> set d. ffw_ok k s)"

lemma ffw_update_shape:
  assumes found: "\<forall>s. map_of d sc = Some s \<longrightarrow> ffw_ok sc s"
  shows "\<exists>s'. ffw_update ig sc d = od_set sc s' d \<and> ffw_ok sc s'"
proof (cases "map_of d sc")
  case None
  then show ?thesis by (auto simp: ffw_update_def Let_def ffw_ok_def)
next
  case (Some s)
  with found show ?thesis by (auto simp: ffw_update_def Let_def ffw_ok_def)
qed

lemma ffw_update_inv: "ffw_inv d \<Longrightarrow> ffw_inv (ffw_update ig sc d)"
proof -
  assume inv: "ffw_inv d"
  have found: "\<forall>s. map_of d sc = Some s \<longrightarrow> ffw_ok sc s"
    using inv by (auto simp: ffw_inv_def dest!: map_of_SomeD)
  obtain s' where eq: "ffw_update ig sc d = od_set sc s' d" and ok: "ffw_ok sc s'"
    using ffw_update_shape [OF found, of ig] by blast
  have "\<forall>(k, s) \<in> set (od_set sc s' d). ffw_ok k s"
    using set_od_set [of sc s' d] ok inv by (auto simp: ffw_inv_def)
  then show ?thesis using inv eq by (simp add: ffw_inv_def)
qed

lemma ffw_list_inv: "ffw_list ig xs d = Inr d' \<Longrightarrow> ffw_inv d \<Longrightarrow> ffw_inv d'"
  by (induction ig xs d rule: ffw_list.induct) (auto intro: ffw_update_inv)

lemma ffw_entries_inv: "ffw_entries fw d = Inr d' \<Longrightarrow> ffw_inv d \<Longrightarrow> ffw_inv d'"
  by (induction fw d rule: ffw_entries.induct)
     (auto intro: ffw_update_inv dest: ffw_list_inv split: sum.splits)

lemma names_match_keys: "\<forall>(k, s) \<in> set d. ds_name s = k \<Longrightarrow> map ds_name (map snd d) = map fst d"
  by (induction d) auto

text \<open>The result of \<open>from_forwarder_workloads\<close> is the list of values of a dictionary
  satisfying \<open>ffw_inv\<close>.\<close>

lemma from_forwarder_workloads_inv:
  "from_forwarder_workloads fw = Inr r \<Longrightarrow> \<exists>d. r = map snd d \<and> ffw_inv d"
  using ffw_entries_inv [of fw "[]"]
  by (auto simp: from_forwarder_workloads_def ffw_inv_def split: sum.splits)

text \<open>C3: the specifications built from a forwarder-workloads map have distinct names,
  each targets the forwarder workload and carries input groups.\<close>

theorem from_forwarder_workloads_wf:
  "from_forwarder_workloads fw = Inr r \<Longrightarrow>
   distinct (map ds_name r) \<and> (\<forall>s \<in> set r. ''forwarder'' \<in> ds_workload s \<and> ds_input_groups s \<noteq> None)"
proof -
  assume "from_forwarder_workloads fw = Inr r"
  then obtain d where rd: "r = map snd d" and inv: "ffw_inv d"
    using from_forwarder_workloads_inv by blast
  then have names: "map ds_name r = od_keys d"
    using names_match_keys [of d] by (auto simp: ffw_inv_def ffw_ok_def)
  have "distinct (map ds_name r)"
    using names inv by (simp add: ffw_inv_def)
  moreover have "\<forall>s \<in> set r. ''forwarder'' \<in> ds_workload s \<and> ds_input_groups s \<noteq> None"
    using inv by (auto simp: rd ffw_inv_def ffw_ok_def)
  ultimately show ?thesis by blast
qed

theorem from_forwarder_workloads_wf_witness:
  "from_forwarder_workloads [(''web'', JArr [JStr ''fw1'', JStr ''fw2'']), (''db'', JStr ''fw1'')] =
     Inr [\<lparr>ds_name = ''fw1'', ds_workload = {''forwarder''}, ds_input_groups = Some {''db'', ''web''}\<rparr>,
          \<lparr>ds_name = ''fw2'', ds_workload = {''forwarder''}, ds_input_groups = Some {''web''}\<rparr>]
   \<and> distinct [''fw1'', ''fw2'']"
proof -
  have e: "from_forwarder_workloads [(''web'', JArr [JStr ''fw1'', JStr ''fw2'']), (''db'', JStr ''fw1'')] =
     Inr [\<lparr>ds_name = ''fw1'', ds_workload = {''forwarder''}, ds_input_groups = Some {''db'', ''web''}\<rparr>,
          \<lparr>ds_name = ''fw2'', ds_workload = {''forwarder''}, ds_input_groups = Some {''web''}\<rparr>]"
    by (simp add: from_forwarder_workloads_def ffw_update_def)
  show ?thesis using e from_forwarder_workloads_wf [OF e] by simp
qed

text \<open>C4 (finding): the workloads of every specification \<open>from_forwarder_workloads\<close>
  builds are the forwarder workload and, for the server classes \<open>_search_heads\<close> and
  \<open>_indexers\<close>, the server-class name itself, which is not a workload: those
  specifications fail the schema's well-formedness.\<close>

theorem from_forwarder_workloads_bad_workload:
  "from_forwarder_workloads fw = Inr r \<Longrightarrow> s \<in> set r \<Longrightarrow>
   ds_workload s = (if ds_name s \<in> {''_search_heads'', ''_indexers''} then {''forwarder'', ds_name s} else {''forwarder''})
   \<and> (ds_name s \<in> {''_search_heads'', ''_indexers''} \<longrightarrow> \<not> spec_wf s)"
proof -
  assume r: "from_forwarder_workloads fw = Inr r" and s: "s \<in> set r"
  obtain d where rd: "r = map snd d" and inv: "ffw_inv d"
    using from_forwarder_workloads_inv [OF r] by blast
  obtain k where "(k, s) \<in> set d" using s rd by auto
  with inv have ok: "ffw_ok k s" by (auto simp: ffw_inv_def)
  then have w: "ds_workload s = (if ds_name s \<in> {''_search_heads'', ''_indexers''} then {''forwarder'', ds_name s} else {''forwarder''})"
    by (simp add: ffw_ok_def)
  then have "ds_name s \<in> {''_search_heads'', ''_indexers''} \<longrightarrow> \<not> ds_workload s \<subseteq> all_workloads"
    by (auto simp: all_workloads_def)
  with w show ?thesis by (auto simp: spec_wf_def)
qed

theorem from_forwarder_workloads_bad_workload_witness:
  "from_forwarder_workloads [(''web'', JStr ''_search_heads'')] = Inr [\<lparr>ds_name = ''_search_heads'',
      ds_workload = {''forwarder'', ''_search_heads''}, ds_input_groups = Some {''web''}\<rparr>]
   \<and> \<not> spec_wf \<lparr>ds_name = ''_search_heads'', ds_workload = {''forwarder'', ''_search_heads''}, ds_input_groups = Some {''web''}\<rparr>"
proof -
  have e: "from_forwarder_workloads [(''web'', JStr ''_search_heads'')] = Inr [\<lparr>ds_name = ''_search_heads'',
      ds_workload = {''forwarder'', ''_search_heads''}, ds_input_groups = Some {''web''}\<rparr>]"
    by (simp add: from_forwarder_workloads_def ffw_update_def insert_commute)
  show ?thesis using from_forwarder_workloads_bad_workload [OF e] e by simp
qed

section \<open>Properties of get_deployment_specifications\<close>

lemma report_duplicate_names_mono: "error_count dg \<le> error_count (report_duplicate_names r seen dg)"
  by (induction r seen dg rule: report_duplicate_names.induct) (auto intro: le_trans)

lemma report_duplicate_names_quiet:
  "error_count (report_duplicate_names r seen dg) = error_count dg \<longleftrightarrow>
   distinct (map ds_name r) \<and> ds_name ` set r \<inter> seen = {}"
proof (induction r seen dg rule: report_duplicate_names.induct)
  case (1 seen dg)
  then show ?case by simp
next
  case (2 s ss seen dg)
  show ?case
  proof (cases "ds_name s \<in> seen")
    case True
    have "error_count (log (ErrDuplicateSpecName (ds_name s)) dg)
          \<le> error_count (report_duplicate_names ss (insert (ds_name s) seen) (log (ErrDuplicateSpecName (ds_name s)) dg))"
      by (rule report_duplicate_names_mono)
    with True show ?thesis by auto
  next
    case False
    with "2.IH" show ?thesis by auto
  qed
qed

text \<open>C5: the final loop reports an error exactly when two resulting specifications
  share a name.\<close>

theorem get_deployment_specifications_duplicates:
  "get_deployment_specifications specs combine fw dg = (Inr r, dg') \<Longrightarrow>
   error_count dg' = error_count dg \<longleftrightarrow> distinct (map ds_name r)"
  by (auto simp: get_deployment_specifications_def report_duplicate_names_quiet split: sum.splits)

theorem get_deployment_specifications_duplicates_witness:
  "get_deployment_specifications [spec_plain ''a'' {''indexer''}, spec_plain ''a'' {''searchHead''}] False None diagnostics0
     = (Inr [spec_plain ''a'' {''indexer''}, spec_plain ''a'' {''searchHead''}],
        log (ErrDuplicateSpecName ''a'') diagnostics0)
   \<and> error_count (log (ErrDuplicateSpecName ''a'') diagnostics0) \<noteq> error_count diagnostics0"
proof -
  have e: "get_deployment_specifications [spec_plain ''a'' {''indexer''}, spec_plain ''a'' {''searchHead''}] False None diagnostics0
     = (Inr [spec_plain ''a'' {''indexer''}, spec_plain ''a'' {''searchHead''}],
        log (ErrDuplicateSpecName ''a'') diagnostics0)"
    by (simp add: get_deployment_specifications_def gds_separate_def spec_plain_def Let_def)
  show ?thesis using e get_deployment_specifications_duplicates [OF e] by simp
qed

section \<open>The combining branch\<close>

text \<open>A specification the first loop of the combining branch collects: it targets
  \<open>searchHead\<close> or \<open>indexer\<close> and has input groups.\<close>

definition combinable :: "deployment_spec \<Rightarrow> bool" where
  "combinable s \<longleftrightarrow> ds_workload s \<inter> {''searchHead'', ''indexer''} \<noteq> {} \<and> ds_input_groups s \<noteq> None"

lemma combine_collect_skip:
  "list_all (\<lambda>s. \<not> combinable s) xs \<Longrightarrow> combine_collect i (xs @ rest) ig rl = combine_collect (i + length xs) rest ig rl"
  by (induction xs arbitrary: i) (auto simp: combinable_def split: option.splits)

lemma combine_collect_take:
  "ds_workload x \<inter> {''searchHead'', ''indexer''} \<noteq> {} \<Longrightarrow> ds_input_groups x = Some g \<Longrightarrow>
   combine_collect i (x # rest) ig rl = combine_collect (Suc i) rest (ig \<union> g) (rl @ [i])"
  by auto

text \<open>C6 (finding): the combining branch deletes the collected indices in ascending order
  from the list it is shrinking.  Whenever exactly two specifications \<open>x\<close> and \<open>y\<close> are
  merged, the second \<open>del\<close> removes the specification just after \<open>y\<close> (whatever it is)
  and keeps \<open>y\<close>, or raises \<open>IndexError\<close> when \<open>y\<close> is the last one; and the merged input
  groups are the plain union of the two, not \<open>_union_of\<close>.\<close>

theorem gds_combine_deletes_wrong_spec:
  assumes "list_all (\<lambda>s. \<not> combinable s) (A @ B @ C)"
    and "ds_workload x \<inter> {''searchHead'', ''indexer''} \<noteq> {}" "ds_input_groups x = Some gx"
    and "ds_workload y \<inter> {''searchHead'', ''indexer''} \<noteq> {}" "ds_input_groups y = Some gy"
  shows "gds_combine (A @ x # B @ y # C) =
           (case C of [] \<Rightarrow> Inl IndexError | c # C' \<Rightarrow> Inr (A @ B @ y # C' @ [search_head_indexers (gx \<union> gy)]))"
proof -
  have "combine_collect 0 (A @ x # B @ y # C) {} [] = ({} \<union> gx \<union> gy, [length A, Suc (length A + length B)])"
    using assms by (simp add: combine_collect_skip [where xs = A] combine_collect_skip [where xs = B]
        combine_collect_skip [where xs = C and rest = "[]", simplified])
  moreover have "py_del (length A) (A @ x # B @ y # C) = Inr (A @ B @ y # C)"
    by (simp add: py_del_def)
  moreover have "py_del (Suc (length A + length B)) (A @ B @ y # C) =
                   (case C of [] \<Rightarrow> Inl IndexError | c # C' \<Rightarrow> Inr (A @ B @ y # C'))"
    by (cases C) (simp_all add: py_del_def)
  ultimately show ?thesis by (simp add: gds_combine_def split: list.split)
qed

theorem gds_combine_deletes_wrong_spec_witness:
  "gds_combine [\<lparr>ds_name = ''A'', ds_workload = {''searchHead''}, ds_input_groups = Some {''*''}\<rparr>,
                \<lparr>ds_name = ''B'', ds_workload = {''indexer''}, ds_input_groups = Some {''a''}\<rparr>,
                \<lparr>ds_name = ''C'', ds_workload = {''forwarder''}, ds_input_groups = Some {''*''}\<rparr>]
   = Inr [\<lparr>ds_name = ''B'', ds_workload = {''indexer''}, ds_input_groups = Some {''a''}\<rparr>,
          search_head_indexers ({''*''} \<union> {''a''})]"
  using gds_combine_deletes_wrong_spec [of "[]" "[]" "[\<lparr>ds_name = ''C'', ds_workload = {''forwarder''}, ds_input_groups = Some {''*''}\<rparr>]"
      "\<lparr>ds_name = ''A'', ds_workload = {''searchHead''}, ds_input_groups = Some {''*''}\<rparr>" "{''*''}"
      "\<lparr>ds_name = ''B'', ds_workload = {''indexer''}, ds_input_groups = Some {''a''}\<rparr>" "{''a''}"]
  by (simp add: combinable_def)

section \<open>Names with a final newline\<close>

lemma safe_char_newline [simp]: "\<not> safe_char (CHR 0x0A)"
  by (simp add: safe_char_def)

lemma safe_filename_match_newline:
  "list_all safe_char n \<Longrightarrow> safe_filename_match (n @ [CHR 0x0A]) = safe_filename_match n"
  by (cases n rule: rev_cases) (auto simp: safe_filename_match_def Let_def butlast_append)

lemma convert_spec_rename:
  "convert_spec \<lparr>ds_name = m, ds_workload = w, ds_input_groups = g\<rparr> =
   map_sum id (\<lambda>s. s\<lparr>ds_name := m\<rparr>) (convert_spec \<lparr>ds_name = n, ds_workload = w, ds_input_groups = g\<rparr>)"
  by (simp add: convert_spec_def split: option.split)

text \<open>C7 (finding): the pattern \<open>[-._ a-zA-Z0-9]+$\<close> is applied with \<open>re.match\<close>, and
  \<open>$\<close> also matches before a final newline: for every name of safe characters, the
  same name followed by a newline (which is not a safe character) decodes exactly as the
  name itself, newline kept.\<close>

theorem safe_filename_accepts_newline:
  "list_all safe_char n \<Longrightarrow>
   decode_spec (n @ [CHR 0x0A]) w g = map_sum id (\<lambda>s. s\<lparr>ds_name := n @ [CHR 0x0A]\<rparr>) (decode_spec n w g)
   \<and> \<not> list_all safe_char (n @ [CHR 0x0A])"
  by (simp add: decode_spec_def convert_safe_filename_def safe_filename_match_newline
      convert_spec_rename [where m = "n @ [CHR 0x0A]" and n = n] split: sum.split)

theorem safe_filename_accepts_newline_witness:
  "decode_spec (''web'' @ [CHR 0x0A]) [''searchHead''] None =
     Inr \<lparr>ds_name = ''web'' @ [CHR 0x0A], ds_workload = {''searchHead''}, ds_input_groups = None\<rparr>"
proof -
  have n: "list_all safe_char ''web''" by (simp add: safe_char_def)
  have "decode_spec ''web'' [''searchHead''] None =
          Inr \<lparr>ds_name = ''web'', ds_workload = {''searchHead''}, ds_input_groups = None\<rparr>"
    by (simp add: decode_spec_def convert_safe_filename_def safe_filename_match_def safe_char_def
        convert_workload_def convert_spec_def)
  with safe_filename_accepts_newline [OF n, of "[''searchHead'']" None] show ?thesis by simp
qed

end
