(* ===== verification/CycleDetection.thy ===== *)
theory CycleDetection
  imports Prelude
begin

text \<open>
  \<open>AppDependencyGraph._is_cyclic\<close> (src/slim/app/_deployment.py, lines 430--449): a
  depth-first search over the graph (an ordered dictionary from a node to its list of
  successors, \<open>graph.get(n, ())\<close> for a node that is no key), with the sets \<open>visited\<close>
  and \<open>graph_path\<close> of the closure threaded through explicitly.  The recursion of
  \<open>visit\<close> is bounded by fuel; the main theorem shows that the fuel \<open>is_cyclic\<close> gives
  (one more than the number of nodes) always suffices and that the answer is exactly
  whether the edge relation has a cycle.  The proof uses, as invariant, that the
  finished nodes (visited and no longer on the path) are closed under edges and lie
  on no cycle, the topological argument of depth-first search.
\<close>

section \<open>The search\<close>

text \<open>The nested function \<open>visit\<close> and its loop over the neighbours, with the sets
  \<open>visited\<close> and \<open>graph_path\<close> threaded through.  The recursion depth is bounded by
  fuel; \<open>None\<close> is running out of it.\<close>

fun cyc_visit :: "nat \<Rightarrow> ('a, 'a list) odict \<Rightarrow> 'a \<Rightarrow> 'a set \<Rightarrow> 'a set \<Rightarrow> (bool \<times> 'a set \<times> 'a set) option"
and cyc_visit_list :: "nat \<Rightarrow> ('a, 'a list) odict \<Rightarrow> 'a list \<Rightarrow> 'a set \<Rightarrow> 'a set \<Rightarrow> (bool \<times> 'a set \<times> 'a set) option" where
  "cyc_visit n g x visited path =
     (if x \<in> visited then Some (False, visited, path)
      else (case n of
              0 \<Rightarrow> None
            | Suc m \<Rightarrow>
                (case cyc_visit_list m g (case map_of g x of None \<Rightarrow> [] | Some ns \<Rightarrow> ns)
                        (insert x visited) (insert x path) of
                   None \<Rightarrow> None
                 | Some (b, v, p) \<Rightarrow> if b then Some (True, v, p) else Some (False, v, p - {x}))))"
| "cyc_visit_list n g [] visited path = Some (False, visited, path)"
| "cyc_visit_list n g (y # ys) visited path =
     (if y \<in> path then Some (True, visited, path)
      else (case cyc_visit n g y visited path of
              None \<Rightarrow> None
            | Some (b, v, p) \<Rightarrow> if b then Some (True, v, p) else cyc_visit_list n g ys v p))"

text \<open>\<open>any(visit(app_source) for app_source in graph)\<close>.\<close>

fun cyc_any :: "nat \<Rightarrow> ('a, 'a list) odict \<Rightarrow> 'a list \<Rightarrow> 'a set \<Rightarrow> 'a set \<Rightarrow> bool option" where
  "cyc_any n g [] visited path = Some False"
| "cyc_any n g (x # xs) visited path =
     (case cyc_visit n g x visited path of
        None \<Rightarrow> None
      | Some (b, v, p) \<Rightarrow> if b then Some True else cyc_any n g xs v p)"

definition graph_nodes :: "('a, 'a list) odict \<Rightarrow> 'a list" where
  "graph_nodes g = remdups (od_keys g @ concat (map snd g))"

definition is_cyclic :: "('a, 'a list) odict \<Rightarrow> bool option" where
  "is_cyclic g = cyc_any (Suc (length (graph_nodes g))) g (od_keys g) {} {}"

section \<open>Correctness\<close>


definition graph_edges :: "('a, 'a list) odict \<Rightarrow> ('a \<times> 'a) set" where
  "graph_edges g = {(a, b). \<exists>ns. map_of g a = Some ns \<and> b \<in> set ns}"

definition graph_succs :: "('a, 'a list) odict \<Rightarrow> 'a \<Rightarrow> 'a list" where
  "graph_succs g x = (case map_of g x of None \<Rightarrow> [] | Some ns \<Rightarrow> ns)"

lemma set_graph_succs: "set (graph_succs g x) = {y. (x, y) \<in> graph_edges g}"
  by (cases "map_of g x") (auto simp: graph_succs_def graph_edges_def)

lemma cyc_visit_unfold:
  "cyc_visit n g x visited path =
     (if x \<in> visited then Some (False, visited, path)
      else (case n of 0 \<Rightarrow> None
            | Suc m \<Rightarrow> (case cyc_visit_list m g (graph_succs g x) (insert x visited) (insert x path) of
                   None \<Rightarrow> None
                 | Some (b, v, p) \<Rightarrow> if b then Some (True, v, p) else Some (False, v, p - {x}))))"
  by (cases n) (simp_all add: graph_succs_def)

declare cyc_visit.simps(1) [simp del]


text \<open>Enough fuel: each call that goes deeper finishes one more node, so fuel above
  the number of unvisited nodes lets every call return.\<close>

definition edges_within :: "('a, 'a list) odict \<Rightarrow> 'a set \<Rightarrow> bool" where
  "edges_within g N \<longleftrightarrow> graph_edges g \<subseteq> N \<times> N"

lemma cyc_fuel_enough:
  fixes N :: "'a set"
  assumes fin: "finite N"
  shows "edges_within g N \<Longrightarrow> x \<in> N \<Longrightarrow> v \<subseteq> N \<Longrightarrow> card (N - v) < n \<Longrightarrow>
           \<exists>b v' p'. cyc_visit n g x v p = Some (b, v', p') \<and> v \<subseteq> v' \<and> v' \<subseteq> N"
    and "edges_within g N \<Longrightarrow> set ys \<subseteq> N \<Longrightarrow> v \<subseteq> N \<Longrightarrow> card (N - v) < n \<Longrightarrow>
           \<exists>b v' p'. cyc_visit_list n g ys v p = Some (b, v', p') \<and> v \<subseteq> v' \<and> v' \<subseteq> N"
proof (induction n g x v p and n g ys v p rule: cyc_visit_cyc_visit_list.induct)
  case (1 n g x visited path)
  show ?case
  proof (cases "x \<in> visited")
    case True
    then have "cyc_visit n g x visited path = Some (False, visited, path)"
      by (simp add: cyc_visit_unfold)
    then show ?thesis using "1.prems"(3)
      by - (rule exI [of _ False], rule exI [of _ visited], rule exI [of _ path], simp)
  next
    case False
    have pos: "0 < card (N - visited)"
      using "1.prems"(2) False fin by (auto simp: card_gt_0_iff)
    with "1.prems"(4) obtain m where n: "n = Suc m" by (cases n) auto
    have "N - insert x visited = (N - visited) - {x}" by blast
    then have "card (N - insert x visited) = card (N - visited) - 1"
      using fin "1.prems"(2) False by (simp add: card_Diff_singleton)
    with pos "1.prems"(4) n have card: "card (N - insert x visited) < m"
      by linarith
    have succ: "set (graph_succs g x) \<subseteq> N"
      using "1.prems"(1) by (auto simp: set_graph_succs edges_within_def)
    have ins: "insert x visited \<subseteq> N" using "1.prems"(2,3) by simp
    have "\<exists>b v' p'. cyc_visit_list m g (graph_succs g x) (insert x visited) (insert x path) = Some (b, v', p')
             \<and> insert x visited \<subseteq> v' \<and> v' \<subseteq> N"
      using "1.IH" [OF False n "1.prems"(1) succ [unfolded graph_succs_def] ins card]
      unfolding graph_succs_def .
    then obtain b v' p' where r: "cyc_visit_list m g (graph_succs g x) (insert x visited) (insert x path) = Some (b, v', p')"
      and v: "visited \<subseteq> v'" "v' \<subseteq> N"
      by blast
    show ?thesis
    proof (cases b)
      case True
      with r False n have "cyc_visit n g x visited path = Some (True, v', p')"
        by (simp add: cyc_visit_unfold)
      with v show ?thesis by blast
    next
      case b: False
      with r False n have "cyc_visit n g x visited path = Some (False, v', p' - {x})"
        by (simp add: cyc_visit_unfold)
      with v show ?thesis by blast
    qed
  qed
next
  case (2 n g visited path)
  have "cyc_visit_list n g [] visited path = Some (False, visited, path)" by simp
  with "2.prems"(3) show ?case by blast
next
  case (3 n g y ys visited path)
  show ?case
  proof (cases "y \<in> path")
    case True
    with "3.prems"(3) show ?thesis by simp
  next
    case False
    have "\<exists>b v1 p1. cyc_visit n g y visited path = Some (b, v1, p1) \<and> visited \<subseteq> v1 \<and> v1 \<subseteq> N"
      using "3.IH"(1) [OF False] "3.prems" by simp
    then obtain b v1 p1 where r1: "cyc_visit n g y visited path = Some (b, v1, p1)"
      and v1: "visited \<subseteq> v1" "v1 \<subseteq> N"
      by blast
    show ?thesis
    proof (cases b)
      case True
      with r1 False have "cyc_visit_list n g (y # ys) visited path = Some (True, v1, p1)" by simp
      with v1 show ?thesis by blast
    next
      case b: False
      have "card (N - v1) \<le> card (N - visited)"
        using v1 fin by (intro card_mono) auto
      with "3.prems"(4) have "card (N - v1) < n" by linarith
      moreover have "set ys \<subseteq> N" using "3.prems"(2) by simp
      ultimately have "\<exists>b' v' p'. cyc_visit_list n g ys v1 p1 = Some (b', v', p') \<and> v1 \<subseteq> v' \<and> v' \<subseteq> N"
        using "3.IH"(2) [OF False r1 refl refl b] v1 "3.prems"(1) by simp
      then obtain b' v' p' where r2: "cyc_visit_list n g ys v1 p1 = Some (b', v', p')" and "v1 \<subseteq> v'" "v' \<subseteq> N"
        by blast
      moreover have "cyc_visit_list n g (y # ys) visited path = Some (b', v', p')"
        using r1 r2 False b by simp
      ultimately show ?thesis using v1 by blast
    qed
  qed
qed

text \<open>A call that reports no cycle leaves the path as it found it.\<close>

lemma cyc_path_kept:
  "cyc_visit n g x v p = Some (False, v', p') \<Longrightarrow> x \<notin> p \<Longrightarrow> p' = p"
  "cyc_visit_list n g ys v p = Some (False, v', p') \<Longrightarrow> p' = p"
proof (induction n g x v p and n g ys v p arbitrary: v' p' and v' p' rule: cyc_visit_cyc_visit_list.induct)
  case (1 n g x visited path)
  show ?case
  proof (cases "x \<in> visited")
    case True
    with "1.prems"(1) show ?thesis by (simp add: cyc_visit_unfold)
  next
    case False
    with "1.prems"(1) obtain m where n: "n = Suc m" by (cases n) (simp_all add: cyc_visit_unfold)
    from "1.prems"(1) False n obtain v'' p'' where
      r: "cyc_visit_list m g (graph_succs g x) (insert x visited) (insert x path) = Some (False, v'', p'')"
      and p': "p' = p'' - {x}"
      by (auto simp: cyc_visit_unfold split: option.splits prod.splits if_splits)
    have "p'' = insert x path"
      using "1.IH" [OF False n] r unfolding graph_succs_def by blast
    with p' "1.prems"(2) show ?thesis by simp
  qed
next
  case (2 n g visited path)
  then show ?case by simp
next
  case (3 n g y ys visited path)
  from "3.prems" have y: "y \<notin> path" by (auto split: if_splits)
  with "3.prems" obtain v1 p1 where r1: "cyc_visit n g y visited path = Some (False, v1, p1)"
    and r2: "cyc_visit_list n g ys v1 p1 = Some (False, v', p')"
    by (auto split: option.splits prod.splits if_splits)
  have "p1 = path" using "3.IH"(1) [OF y r1 y] .
  with "3.IH"(2) [OF y r1 refl refl] r2 show ?case by simp
qed

text \<open>Soundness: a reported cycle is a cycle of the graph.\<close>

lemma cyc_sound:
  "cyc_visit n g x v p = Some (True, v', p') \<Longrightarrow> x \<notin> p \<Longrightarrow>
     \<forall>z\<in>p. (z, x) \<in> (graph_edges g)\<^sup>+ \<Longrightarrow> \<exists>c. (c, c) \<in> (graph_edges g)\<^sup>+"
  "cyc_visit_list n g ys v p = Some (True, v', p') \<Longrightarrow>
     \<forall>z\<in>p. \<forall>y\<in>set ys. (z, y) \<in> (graph_edges g)\<^sup>+ \<Longrightarrow> \<exists>c. (c, c) \<in> (graph_edges g)\<^sup>+"
proof (induction n g x v p and n g ys v p arbitrary: v' p' and v' p' rule: cyc_visit_cyc_visit_list.induct)
  case (1 n g x visited path)
  have False': "x \<notin> visited"
    using "1.prems"(1) by (auto simp: cyc_visit_unfold)
  with "1.prems"(1) obtain m where n: "n = Suc m" by (cases n) (simp_all add: cyc_visit_unfold)
  from "1.prems"(1) False' n obtain v'' p'' where
    r: "cyc_visit_list m g (graph_succs g x) (insert x visited) (insert x path) = Some (True, v'', p'')"
    by (auto simp: cyc_visit_unfold split: option.splits prod.splits if_splits)
  have reach: "\<forall>z\<in>insert x path. \<forall>y\<in>set (graph_succs g x). (z, y) \<in> (graph_edges g)\<^sup>+"
  proof (intro ballI)
    fix z y assume z: "z \<in> insert x path" and y: "y \<in> set (graph_succs g x)"
    from y have xy: "(x, y) \<in> graph_edges g" by (simp add: set_graph_succs)
    show "(z, y) \<in> (graph_edges g)\<^sup>+"
    proof (cases "z = x")
      case True
      with xy show ?thesis by simp
    next
      case False
      with z "1.prems"(3) have "(z, x) \<in> (graph_edges g)\<^sup>+" by simp
      with xy show ?thesis by simp
    qed
  qed
  show ?case
    using "1.IH" [OF False' n] r reach unfolding graph_succs_def by blast
next
  case (2 n g visited path)
  then show ?case by simp
next
  case (3 n g y ys visited path)
  show ?case
  proof (cases "y \<in> path")
    case True
    with "3.prems"(2) have "(y, y) \<in> (graph_edges g)\<^sup>+" by simp
    then show ?thesis by blast
  next
    case y: False
    have py: "\<forall>z\<in>path. (z, y) \<in> (graph_edges g)\<^sup>+" using "3.prems"(2) by simp
    from "3.prems"(1) y obtain b v1 p1 where r1: "cyc_visit n g y visited path = Some (b, v1, p1)"
      by (auto split: option.splits)
    show ?thesis
    proof (cases b)
      case True
      with r1 have "cyc_visit n g y visited path = Some (True, v1, p1)" by simp
      from "3.IH"(1) [OF y this y py] show ?thesis .
    next
      case False
      with r1 have r1': "cyc_visit n g y visited path = Some (False, v1, p1)" by simp
      then have "p1 = path" using y by (rule cyc_path_kept(1))
      moreover from "3.prems"(1) y r1' have "cyc_visit_list n g ys v1 p1 = Some (True, v', p')" by simp
      ultimately show ?thesis using "3.IH"(2) [OF y r1' refl refl] "3.prems"(2) by simp
    qed
  qed
qed


text \<open>Finished nodes: closed under edges, and on no cycle.\<close>

definition dag_closed :: "('a \<times> 'a) set \<Rightarrow> 'a set \<Rightarrow> bool" where
  "dag_closed E F \<longleftrightarrow> (\<forall>a\<in>F. \<forall>b. (a, b) \<in> E \<longrightarrow> b \<in> F) \<and> (\<forall>a\<in>F. (a, a) \<notin> E\<^sup>+)"

lemma dag_closed_step: "dag_closed E F \<Longrightarrow> a \<in> F \<Longrightarrow> (a, b) \<in> E \<Longrightarrow> b \<in> F"
  unfolding dag_closed_def by blast

lemma dag_closed_acyc: "dag_closed E F \<Longrightarrow> a \<in> F \<Longrightarrow> (a, a) \<notin> E\<^sup>+"
  unfolding dag_closed_def by blast

lemma dag_closed_rtrancl:
  assumes "dag_closed E F" "(a, b) \<in> E\<^sup>*" "a \<in> F"
  shows "b \<in> F"
  using assms(2,3)
proof (induction rule: rtrancl_induct)
  case (step b c)
  then show ?case using dag_closed_step [OF assms(1)] by blast
qed simp

lemma dag_closed_insert:
  assumes F: "dag_closed E F" and x: "x \<notin> F" and succ: "\<And>y. (x, y) \<in> E \<Longrightarrow> y \<in> F"
  shows "dag_closed E (insert x F)"
  unfolding dag_closed_def
proof (intro conjI ballI allI impI)
  fix a b assume a: "a \<in> insert x F" and ab: "(a, b) \<in> E"
  show "b \<in> insert x F"
  proof (cases "a = x")
    case True
    with ab succ show ?thesis by simp
  next
    case False
    with a ab dag_closed_step [OF F] show ?thesis by simp
  qed
next
  fix a assume a: "a \<in> insert x F"
  show "(a, a) \<notin> E\<^sup>+"
  proof (cases "a = x")
    case True
    show ?thesis
    proof
      assume "(a, a) \<in> E\<^sup>+"
      with True obtain y where xy: "(x, y) \<in> E" and yx: "(y, x) \<in> E\<^sup>*"
        by (auto dest: tranclD)
      from xy have "y \<in> F" by (rule succ)
      from dag_closed_rtrancl [OF F yx this] x show False by simp
    qed
  next
    case False
    with a dag_closed_acyc [OF F] show ?thesis by simp
  qed
qed


text \<open>Completeness: a call that reports no cycle finishes its node (and the nodes it
  reaches), keeping the finished nodes closed and acyclic.\<close>

lemma cyc_complete:
  "cyc_visit n g x v p = Some (False, v', p') \<Longrightarrow> x \<notin> p \<Longrightarrow> p \<subseteq> v \<Longrightarrow>
     dag_closed (graph_edges g) (v - p) \<Longrightarrow>
     v \<subseteq> v' \<and> x \<in> v' - p \<and> dag_closed (graph_edges g) (v' - p)"
  "cyc_visit_list n g ys v p = Some (False, v', p') \<Longrightarrow> p \<subseteq> v \<Longrightarrow>
     dag_closed (graph_edges g) (v - p) \<Longrightarrow>
     v \<subseteq> v' \<and> set ys \<subseteq> v' - p \<and> dag_closed (graph_edges g) (v' - p)"
proof (induction n g x v p and n g ys v p arbitrary: v' p' and v' p' rule: cyc_visit_cyc_visit_list.induct)
  case (1 n g x visited path)
  show ?case
  proof (cases "x \<in> visited")
    case True
    with "1.prems" show ?thesis by (simp add: cyc_visit_unfold)
  next
    case False
    with "1.prems"(1) obtain m where n: "n = Suc m" by (cases n) (simp_all add: cyc_visit_unfold)
    from "1.prems"(1) False n obtain p'' where
      r: "cyc_visit_list m g (graph_succs g x) (insert x visited) (insert x path) = Some (False, v', p'')"
      by (auto simp: cyc_visit_unfold split: option.splits prod.splits if_splits)
    have eq: "insert x visited - insert x path = visited - path" using False by blast
    have "insert x path \<subseteq> insert x visited" using "1.prems"(3) by blast
    then have ih: "insert x visited \<subseteq> v' \<and> set (graph_succs g x) \<subseteq> v' - insert x path \<and>
        dag_closed (graph_edges g) (v' - insert x path)"
      using "1.IH" [OF False n] r "1.prems"(4) eq unfolding graph_succs_def by simp
    have "dag_closed (graph_edges g) (insert x (v' - insert x path))"
    proof (rule dag_closed_insert)
      fix y assume "(x, y) \<in> graph_edges g"
      with ih show "y \<in> v' - insert x path" by (auto simp: set_graph_succs)
    qed (use ih in simp_all)
    moreover have "insert x (v' - insert x path) = v' - path" using ih "1.prems"(2) by blast
    ultimately show ?thesis using ih "1.prems"(2) by auto
  qed
next
  case (2 n g visited path)
  then show ?case by simp
next
  case (3 n g y ys visited path)
  from "3.prems"(1) have y: "y \<notin> path" by (auto split: if_splits)
  from "3.prems"(1) y obtain b v1 p1 where r1: "cyc_visit n g y visited path = Some (b, v1, p1)"
    by (auto split: option.splits)
  with "3.prems"(1) y have b: "\<not> b" by (auto split: if_splits)
  with r1 have r1': "cyc_visit n g y visited path = Some (False, v1, p1)" by simp
  have p1: "p1 = path" using r1' y by (rule cyc_path_kept(1))
  have ih1: "visited \<subseteq> v1 \<and> y \<in> v1 - path \<and> dag_closed (graph_edges g) (v1 - path)"
    using "3.IH"(1) [OF y r1' y "3.prems"(2,3)] .
  have r2: "cyc_visit_list n g ys v1 path = Some (False, v', p')"
    using "3.prems"(1) y r1 b p1 by simp
  have "path \<subseteq> v1" using ih1 "3.prems"(2) by blast
  then have ih2: "v1 \<subseteq> v' \<and> set ys \<subseteq> v' - path \<and> dag_closed (graph_edges g) (v' - path)"
    using "3.IH"(2) [OF y r1 refl refl b] r2 ih1 p1 by simp
  from ih1 ih2 show ?case by auto
qed


lemma cyc_any_fuel:
  "finite N \<Longrightarrow> edges_within g N \<Longrightarrow> set xs \<subseteq> N \<Longrightarrow> v \<subseteq> N \<Longrightarrow> card (N - v) < n \<Longrightarrow>
     \<exists>b. cyc_any n g xs v p = Some b"
proof (induction xs arbitrary: v p)
  case (Cons x xs)
  then obtain b v' p' where r: "cyc_visit n g x v p = Some (b, v', p')" and v': "v \<subseteq> v'" "v' \<subseteq> N"
    using cyc_fuel_enough(1) [of N g x v n p] by auto
  have "card (N - v') \<le> card (N - v)" using v' Cons.prems(1) by (intro card_mono) auto
  then have "\<exists>b. cyc_any n g xs v' p' = Some b"
    using Cons.IH [of v' p'] Cons.prems v' by simp
  with r show ?case by (cases b) auto
qed simp

lemma cyc_any_sound:
  "cyc_any n g xs v {} = Some True \<Longrightarrow> \<exists>c. (c, c) \<in> (graph_edges g)\<^sup>+"
proof (induction xs arbitrary: v)
  case (Cons x xs)
  then obtain b v1 p1 where r: "cyc_visit n g x v {} = Some (b, v1, p1)"
    by (auto split: option.splits)
  show ?case
  proof (cases b)
    case True
    with r show ?thesis using cyc_sound(1) [of n g x v "{}"] by simp
  next
    case False
    with r have "p1 = {}" using cyc_path_kept(1) [of n g x v "{}"] by simp
    with r False Cons show ?thesis by simp
  qed
qed simp

lemma cyc_any_complete:
  "cyc_any n g xs v {} = Some False \<Longrightarrow> dag_closed (graph_edges g) v \<Longrightarrow>
     \<exists>v'. v \<subseteq> v' \<and> set xs \<subseteq> v' \<and> dag_closed (graph_edges g) v'"
proof (induction xs arbitrary: v)
  case (Cons x xs)
  then obtain b v1 p1 where r: "cyc_visit n g x v {} = Some (b, v1, p1)"
    by (auto split: option.splits)
  with Cons.prems(1) have b: "\<not> b" by (auto split: if_splits)
  with r have r': "cyc_visit n g x v {} = Some (False, v1, p1)" by simp
  have "p1 = {}" using cyc_path_kept(1) [OF r'] by simp
  with Cons.prems r b have rest: "cyc_any n g xs v1 {} = Some False" by simp
  have v1: "v \<subseteq> v1 \<and> x \<in> v1 \<and> dag_closed (graph_edges g) v1"
    using cyc_complete(1) [OF r'] Cons.prems(2) by simp
  then obtain v' where "v1 \<subseteq> v'" "set xs \<subseteq> v'" "dag_closed (graph_edges g) v'"
    using Cons.IH [OF rest] by blast
  with v1 show ?case by auto
qed auto


lemma graph_edges_key: "(a, b) \<in> graph_edges g \<Longrightarrow> a \<in> fst ` set g"
  unfolding graph_edges_def by (force dest: map_of_SomeD)

lemma edges_within_graph_nodes: "edges_within g (set (graph_nodes g))"
  unfolding edges_within_def
proof
  fix e assume e: "e \<in> graph_edges g"
  obtain a b where ab: "e = (a, b)" by (cases e)
  with e obtain ns where "map_of g a = Some ns" "b \<in> set ns" by (auto simp: graph_edges_def)
  then have "(a, ns) \<in> set g" "b \<in> set ns" by (auto dest: map_of_SomeD)
  then have "a \<in> fst ` set g" "b \<in> set (concat (map snd g))" by force+
  with ab show "e \<in> set (graph_nodes g) \<times> set (graph_nodes g)" by (simp add: graph_nodes_def)
qed

lemma is_cyclic_returns: "\<exists>b. is_cyclic g = Some b"
proof -
  let ?N = "set (graph_nodes g)" and ?n = "Suc (length (graph_nodes g))"
  have card: "card (?N - {}) < ?n"
    using card_length [of "graph_nodes g"] by simp
  have keys: "set (od_keys g) \<subseteq> ?N" by (auto simp: graph_nodes_def)
  show ?thesis unfolding is_cyclic_def
    by (rule cyc_any_fuel [OF finite_set edges_within_graph_nodes keys empty_subsetI card])
qed

lemma is_cyclic_sound: "is_cyclic g = Some True \<Longrightarrow> \<exists>c. (c, c) \<in> (graph_edges g)\<^sup>+"
  unfolding is_cyclic_def by (rule cyc_any_sound)

lemma is_cyclic_complete:
  assumes r: "is_cyclic g = Some False"
  shows "(c, c) \<notin> (graph_edges g)\<^sup>+"
proof
  have "dag_closed (graph_edges g) {}" by (simp add: dag_closed_def)
  with r obtain v' where keys: "set (od_keys g) \<subseteq> v'" and dag: "dag_closed (graph_edges g) v'"
    using cyc_any_complete [of _ g "od_keys g" "{}"] unfolding is_cyclic_def by auto
  assume cc: "(c, c) \<in> (graph_edges g)\<^sup>+"
  then obtain d where "(c, d) \<in> graph_edges g" by (auto dest: tranclD)
  then have "c \<in> fst ` set g" by (rule graph_edges_key)
  with keys have "c \<in> v'" by auto
  from dag_closed_acyc [OF dag this] cc show False by simp
qed

lemma is_cyclic_iff: "is_cyclic g = Some True \<longleftrightarrow> (\<exists>c. (c, c) \<in> (graph_edges g)\<^sup>+)"
  using is_cyclic_returns [of g] is_cyclic_sound [of g] is_cyclic_complete [of g] by (metis (full_types))

text \<open>C8: \<open>_is_cyclic\<close> returns on every graph (the fuel suffices) and answers exactly
  whether the graph has a cycle, a node that reaches itself along one or more edges.\<close>

theorem is_cyclic_correct: "is_cyclic g = Some (\<exists>c. (c, c) \<in> (graph_edges g)\<^sup>+)"
proof -
  obtain b where r: "is_cyclic g = Some b" using is_cyclic_returns by blast
  with is_cyclic_iff [of g] show ?thesis by simp
qed

end
