(* ===== verification/DependencyGraph.thy ===== *)
theory DependencyGraph
  imports DeploymentSpec CycleDetection "HOL-Library.Product_Lexorder"
begin

text \<open>
  \<open>AppDependencyGraph\<close> (src/slim/app/_deployment.py, lines 72--458): the graph of an
  app and its transitive dependencies, built by \<open>_add_source\<close> from a work queue, then
  checked by \<open>_is_cyclic\<close> and \<open>_check_dependencies\<close>.

  An \<open>AppSource\<close> is a record holding what the graph code reads of it: its id, package
  file name, packaged version, whether it has a manifest, the dependency declarations
  that \<open>get_dependencies_for_target_os\<close> yields for the target OS (in declaration order),
  and its input groups.  Sources are compared by value, as dictionary keys.  The
  repository caches of the Python object are explicit: \<open>ds\<close> is
  \<open>app_source.dependency_sources\<close> (read only), \<open>inst\<close> the installed-packages index,
  and \<open>gs_repository\<close> the mutable \<open>_repository_sources\<close> cache.  Version ranges are
  the external \<open>semantic_version.Spec\<close>, modelled as a small datatype with \<open>range_match\<close>.
\<close>

section \<open>Versions and version ranges\<close>

type_synonym version = "nat \<times> nat \<times> nat"

datatype version_range =
    AnyVersion
  | SameAs version
  | AtLeast version
  | Below version
  | Both version_range version_range

fun range_match :: "version_range \<Rightarrow> version \<Rightarrow> bool" where
  "range_match AnyVersion v = True"
| "range_match (SameAs w) v = (v = w)"
| "range_match (AtLeast w) v = (w \<le> v)"
| "range_match (Below w) v = (v < w)"
| "range_match (Both r s) v = (range_match r v \<and> range_match s v)"

section \<open>App sources\<close>

record dependency =
  dep_package :: "string option"
  dep_version :: version_range
  dep_optional :: bool

text \<open>The \<open>requires\<close> attribute of an input group of a manifest: absent (reading it
  raises \<open>AttributeError\<close>), present with the value \<open>None\<close>, or a dictionary from
  dependency names to input-group sets.\<close>

datatype group_requires = RequiresAbsent | RequiresNone | Requires "(string \<times> string set) list"

record input_group =
  ig_requires :: group_requires

text \<open>An app source: \<open>src_dependencies\<close> is what \<open>get_dependencies_for_target_os\<close> lists
  for the target OS (nothing when the manifest has no dependencies), \<open>src_declared\<close> is
  \<open>manifest.dependencies\<close> itself, \<open>None\<close> when absent.\<close>

record app_source =
  src_id :: string
  src_package :: string
  src_version :: version
  src_has_manifest :: bool
  src_dependencies :: "(string \<times> dependency) list"
  src_declared :: "(string \<times> dependency) list option"
  src_input_groups :: "(string \<times> input_group) list option"

section \<open>Graph construction\<close>

text \<open>The state \<open>_add_source\<close> changes: \<open>_graph\<close>, \<open>_dependents\<close>, the attribute
  \<open>app_source._dependencies\<close> of every visited source, the \<open>_repository_sources\<close>
  cache, and the logger with the payload.\<close>

record graph_state =
  gs_graph :: "(app_source, app_source list) odict"
  gs_dependents :: "(app_source, (dependency \<times> app_source) list) odict"
  gs_dependencies :: "(app_source, (dependency \<times> app_source) list) odict"
  gs_repository :: "(string, app_source) odict"
  gs_diag :: diagnostics

text \<open>Which package a declaration names: the pinned package, else the installed one.\<close>

definition resolve_package :: "(string, string) odict \<Rightarrow> string \<Rightarrow> dependency \<Rightarrow> string option" where
  "resolve_package inst name d =
     (if py_truthy (dep_package d) then dep_package d
      else if py_truthy (map_of inst name) then map_of inst name
      else None)"

text \<open>\<open>dependency_sources[package]\<close>, falling back on \<open>repository_sources[package]\<close>.\<close>

definition find_source :: "(string, app_source) odict \<Rightarrow> (string, app_source) odict \<Rightarrow> string \<Rightarrow> app_source option" where
  "find_source ds rs package = (case map_of ds package of Some s \<Rightarrow> Some s | None \<Rightarrow> map_of rs package)"

definition missing_dependency :: "string \<Rightarrow> diagnostics \<Rightarrow> diagnostics" where
  "missing_dependency name dg =
     dg\<lparr>dg_missing := dg_missing dg @ [name], dg_status := STATUS_ERROR_MISSING_DEPENDENCIES\<rparr>"

text \<open>One iteration of the loop of \<open>_get_dependencies\<close>; the accumulator is the deque
  \<open>dependencies\<close>.\<close>

definition get_dependency ::
  "(string, app_source) odict \<Rightarrow> (string, string) odict \<Rightarrow> app_source \<Rightarrow>
   (string, app_source) odict \<times> diagnostics \<times> (dependency \<times> app_source) list \<Rightarrow> string \<times> dependency \<Rightarrow>
   (string, app_source) odict \<times> diagnostics \<times> (dependency \<times> app_source) list" where
  "get_dependency ds inst a acc decl =
     (case acc of (rs, dg, deps) \<Rightarrow> case decl of (name, d) \<Rightarrow>
      (case resolve_package inst name d of
         None \<Rightarrow>
           (if dep_optional d
            then (rs, (log (WarnSkipOptional name) dg)\<lparr>dg_missing_optional := dg_missing_optional dg @ [name]\<rparr>, deps)
            else (rs, missing_dependency name (log (WarnSkipDynamic name) dg), deps))
       | Some package \<Rightarrow>
           (case find_source ds rs package of
              None \<Rightarrow> (rs, missing_dependency name (log (ErrStaticNotFound package) dg), deps)
            | Some s \<Rightarrow>
                (if \<not> src_has_manifest s then (od_set package s rs, dg, deps)
                 else (od_set package s rs,
                       if range_match (dep_version d) (src_version s) then dg
                       else log (ErrOutsideRange (src_id a) name) dg,
                       deps @ [(d, s)])))))"

definition get_dependencies ::
  "(string, app_source) odict \<Rightarrow> (string, string) odict \<Rightarrow> (string, app_source) odict \<Rightarrow> diagnostics \<Rightarrow>
   app_source \<Rightarrow> (string, app_source) odict \<times> diagnostics \<times> (dependency \<times> app_source) list" where
  "get_dependencies ds inst rs dg a = foldl (get_dependency ds inst a) (rs, dg, []) (src_dependencies a)"

text \<open>\<open>dependents = app_dependents.get(s) or deque(); dependents.append((d, a));
  app_dependents[s] = dependents\<close>.\<close>

definition add_dependent ::
  "app_source \<Rightarrow> (app_source, (dependency \<times> app_source) list) odict \<Rightarrow> dependency \<times> app_source \<Rightarrow>
   (app_source, (dependency \<times> app_source) list) odict" where
  "add_dependent a dm ds_pair =
     (case ds_pair of (d, s) \<Rightarrow>
        od_set s ((case map_of dm s of None \<Rightarrow> [] | Some l \<Rightarrow> l) @ [(d, a)]) dm)"

text \<open>The body of the \<open>while\<close> loop of \<open>_add_source\<close> for a source not yet in the
  graph: the new state and the list \<open>dependency_sources\<close> pushed with \<open>extendleft\<close>.\<close>

definition add_source_step ::
  "(string, app_source) odict \<Rightarrow> (string, string) odict \<Rightarrow> app_source \<Rightarrow> graph_state \<Rightarrow>
   graph_state \<times> app_source list" where
  "add_source_step ds inst a st =
     (case get_dependencies ds inst (gs_repository st) (gs_diag st) a of (rs, dg, deps) \<Rightarrow>
        (st\<lparr>gs_graph := od_set a (ordered_set (map snd deps)) (gs_graph st),
            gs_dependents := foldl (add_dependent a) (gs_dependents st) deps,
            gs_dependencies := od_set a deps (gs_dependencies st),
            gs_repository := rs, gs_diag := dg\<rparr>,
         map snd deps))"

text \<open>The sources the loop can ever see: the queue and the values of both caches.\<close>

definition universe :: "(string, app_source) odict \<Rightarrow> app_source list \<Rightarrow> graph_state \<Rightarrow> app_source set" where
  "universe ds q st = set q \<union> set (map snd ds) \<union> set (map snd (gs_repository st))"

lemma get_dependency_sources:
  assumes st: "get_dependency ds inst a (rs, dg, deps) (name, d) = (rs', dg', deps')"
  shows "set (map snd deps') \<union> set (map snd rs') \<subseteq> set (map snd deps) \<union> set (map snd ds) \<union> set (map snd rs)"
proof (cases "resolve_package inst name d")
  case None
  with st show ?thesis by (auto simp: get_dependency_def split: if_splits)
next
  case (Some package)
  show ?thesis
  proof (cases "find_source ds rs package")
    case None
    with st \<open>resolve_package inst name d = Some package\<close> show ?thesis
      by (simp add: get_dependency_def) blast
  next
    case (Some s)
    then have "s \<in> set (map snd ds) \<union> set (map snd rs)"
      by (force simp: find_source_def split: option.splits dest: map_of_SomeD)
    moreover have "rs' = od_set package s rs" and "set deps' \<subseteq> insert (d, s) (set deps)"
      using st \<open>resolve_package inst name d = Some package\<close> Some
      by (auto simp: get_dependency_def split: if_splits)
    then have "set (map snd deps') \<subseteq> insert s (set (map snd deps))"
      and "set (map snd rs') \<subseteq> insert s (set (map snd rs))"
      using set_od_set_values [of package s rs] by auto
    ultimately show ?thesis by blast
  qed
qed

lemma get_dependencies_sources:
  "foldl (get_dependency ds inst a) (rs, dg, deps) decls = (rs', dg', deps') \<Longrightarrow>
   set (map snd deps') \<union> set (map snd rs') \<subseteq> set (map snd deps) \<union> set (map snd ds) \<union> set (map snd rs)"
proof (induction decls arbitrary: rs dg deps)
  case Nil
  then show ?case by auto
next
  case (Cons decl decls)
  obtain name d where decl: "decl = (name, d)" by (cases decl)
  obtain rs1 dg1 deps1 where s1: "get_dependency ds inst a (rs, dg, deps) (name, d) = (rs1, dg1, deps1)"
    by (cases "get_dependency ds inst a (rs, dg, deps) (name, d)") auto
  with Cons.prems decl have "foldl (get_dependency ds inst a) (rs1, dg1, deps1) decls = (rs', dg', deps')"
    by simp
  with Cons.IH have "set (map snd deps') \<union> set (map snd rs') \<subseteq> set (map snd deps1) \<union> set (map snd ds) \<union> set (map snd rs1)"
    by blast
  with get_dependency_sources [OF s1] show ?case by blast
qed

lemma add_source_step_universe:
  assumes "add_source_step ds inst a st = (st', srcs)"
  shows "set srcs \<union> set (map snd (gs_repository st')) \<subseteq> set (map snd ds) \<union> set (map snd (gs_repository st))"
    and "set (od_keys (gs_graph st')) = insert a (set (od_keys (gs_graph st)))"
proof -
  obtain rs dg deps where g: "get_dependencies ds inst (gs_repository st) (gs_diag st) a = (rs, dg, deps)"
    by (cases "get_dependencies ds inst (gs_repository st) (gs_diag st) a") auto
  then have "set (map snd deps) \<union> set (map snd rs) \<subseteq> set (map snd ds) \<union> set (map snd (gs_repository st))"
    using get_dependencies_sources [of ds inst a "gs_repository st" "gs_diag st" "[]"]
    by (simp add: get_dependencies_def)
  moreover have "srcs = map snd deps" and "gs_repository st' = rs"
    and gr: "gs_graph st' = od_set a (ordered_set (map snd deps)) (gs_graph st)"
    using assms g by (auto simp: add_source_step_def)
  ultimately show "set srcs \<union> set (map snd (gs_repository st')) \<subseteq> set (map snd ds) \<union> set (map snd (gs_repository st))"
    by simp
  from gr show "set (od_keys (gs_graph st')) = insert a (set (od_keys (gs_graph st)))"
    by simp
qed

definition graph_measure :: "(string, app_source) odict \<Rightarrow> app_source list \<Rightarrow> graph_state \<Rightarrow> nat" where
  "graph_measure ds q st = card (universe ds q st - set (od_keys (gs_graph st)))"

lemma finite_universe [simp]: "finite (universe ds q st)"
  by (simp add: universe_def)

lemma graph_measure_skip:
  "set q' \<subseteq> set q \<Longrightarrow> graph_measure ds q' st \<le> graph_measure ds q st"
  unfolding graph_measure_def universe_def
  by (rule card_mono) auto

lemma graph_measure_step:
  assumes step: "add_source_step ds inst a st = (st', srcs)"
    and a: "a \<in> set q" "a \<notin> set (od_keys (gs_graph st))"
    and q: "set q' \<subseteq> set q" "set q'' = set srcs \<union> set q'"
  shows "graph_measure ds q'' st' < graph_measure ds q st"
proof -
  have "universe ds q'' st' \<subseteq> universe ds q st"
    using add_source_step_universe(1) [OF step] q by (auto simp: universe_def)
  then have "universe ds q'' st' - set (od_keys (gs_graph st')) \<subset> universe ds q st - set (od_keys (gs_graph st))"
    using add_source_step_universe(2) [OF step] a by (auto simp: universe_def)
  then show ?thesis
    unfolding graph_measure_def by (rule psubset_card_mono [rotated]) simp
qed

lemma dq_pop_facts:
  "q \<noteq> [] \<Longrightarrow> (a, q') = dq_pop q \<Longrightarrow> a \<in> set q \<and> set q' \<subseteq> set q \<and> length q' < length q"
  by (auto simp: dq_pop_def dest: in_set_butlastD)

text \<open>The loop's termination order: fewer unvisited sources of the universe, else a
  shorter queue.\<close>

definition graph_loop_rel ::
  "(((string, app_source) odict \<times> (string, string) odict \<times> app_source list \<times> graph_state) \<times>
    ((string, app_source) odict \<times> (string, string) odict \<times> app_source list \<times> graph_state)) set" where
  "graph_loop_rel = measures [\<lambda>(ds, inst, q, st). graph_measure ds q st, \<lambda>(ds, inst, q, st). length q]"

lemma wf_graph_loop_rel: "wf graph_loop_rel"
  by (simp add: graph_loop_rel_def)

lemma graph_loop_rel_skip:
  "set q' \<subseteq> set q \<Longrightarrow> length q' < length q \<Longrightarrow> ((ds, inst, q', st), (ds, inst, q, st)) \<in> graph_loop_rel"
  using graph_measure_skip [of q' q ds st] by (auto simp: graph_loop_rel_def le_less)

lemma graph_loop_rel_step:
  "add_source_step ds inst a st = (st', srcs) \<Longrightarrow> a \<in> set q \<Longrightarrow> a \<notin> set (od_keys (gs_graph st)) \<Longrightarrow>
   set q' \<subseteq> set q \<Longrightarrow> set q'' = set srcs \<union> set q' \<Longrightarrow>
   ((ds, inst, q'', st'), (ds, inst, q, st)) \<in> graph_loop_rel"
  using graph_measure_step by (simp add: graph_loop_rel_def)

text \<open>The \<open>while\<close> loop of \<open>_add_source\<close>: \<open>app_source = queue.pop()\<close>; a source already in
  the graph is skipped, any other is expanded and its dependency sources are pushed with
  \<open>queue.extendleft\<close>.\<close>

function add_source_loop ::
  "(string, app_source) odict \<Rightarrow> (string, string) odict \<Rightarrow> app_source list \<Rightarrow> graph_state \<Rightarrow> graph_state" where
  "add_source_loop ds inst q st =
     (if q = [] then st
      else (case dq_pop q of (a, q') \<Rightarrow>
        if a \<in> set (od_keys (gs_graph st)) then add_source_loop ds inst q' st
        else (case add_source_step ds inst a st of (st', srcs) \<Rightarrow>
                add_source_loop ds inst (dq_extendleft srcs q') st')))"
  by pat_completeness auto
termination
proof (relation graph_loop_rel, goal_cases)
  case 1
  show ?case by (rule wf_graph_loop_rel)
next
  case (2 ds inst q st a q')
  then show ?case using dq_pop_facts [of q a q'] by (intro graph_loop_rel_skip) auto
next
  case (3 ds inst q st a q' st' srcs)
  then show ?case
    using dq_pop_facts [of q a q'] graph_loop_rel_step [of ds inst a st st' srcs q q' "dq_extendleft srcs q'"]
    by (auto simp: dq_extendleft_def)
qed

text \<open>A plain first-in first-out breadth-first loop over the same step.\<close>

function bfs_loop ::
  "(string, app_source) odict \<Rightarrow> (string, string) odict \<Rightarrow> app_source list \<Rightarrow> graph_state \<Rightarrow> graph_state" where
  "bfs_loop ds inst q st =
     (if q = [] then st
      else if hd q \<in> set (od_keys (gs_graph st)) then bfs_loop ds inst (tl q) st
      else (case add_source_step ds inst (hd q) st of (st', srcs) \<Rightarrow>
              bfs_loop ds inst (tl q @ srcs) st'))"
  by pat_completeness auto
termination
proof (relation graph_loop_rel, goal_cases)
  case 1
  show ?case by (rule wf_graph_loop_rel)
next
  case 2
  then show ?case by (intro graph_loop_rel_skip) (auto dest: list.set_sel(2))
next
  case (3 ds inst q st st' srcs)
  then show ?case
    by (intro graph_loop_rel_step [of ds inst "hd q" st st' srcs q "tl q"]) (auto dest: list.set_sel(2))
qed

declare add_source_loop.simps [simp del] bfs_loop.simps [simp del]

section \<open>The deque discipline is a first-in first-out queue\<close>

lemma add_source_loop_bfs_loop: "add_source_loop ds inst q st = bfs_loop ds inst (rev q) st"
proof (induction ds inst q st rule: add_source_loop.induct)
  case (1 ds inst q st)
  show ?case
  proof (cases "q = []")
    case True
    then show ?thesis by (simp add: add_source_loop.simps bfs_loop.simps)
  next
    case False
    obtain a q' where pop: "dq_pop q = (a, q')" by fastforce
    with dq_pop_rev [OF False] have a: "hd (rev q) = a" and q': "tl (rev q) = rev q'"
      by auto
    have nonempty: "rev q \<noteq> []" using False by simp
    show ?thesis
    proof (cases "a \<in> set (od_keys (gs_graph st))")
      case True
      with "1.IH"(1) [OF False pop [symmetric] True] False pop a q' nonempty show ?thesis
        by (simp add: add_source_loop.simps [of ds inst q] bfs_loop.simps [of ds inst "rev q"])
    next
      case new: False
      obtain st' srcs where step: "add_source_step ds inst a st = (st', srcs)" by fastforce
      from "1.IH"(2) [OF False pop [symmetric] new step [symmetric]]
      have "add_source_loop ds inst (dq_extendleft srcs q') st' = bfs_loop ds inst (rev q' @ srcs) st'"
        by simp
      with False pop a q' nonempty new step show ?thesis
        by (simp add: add_source_loop.simps [of ds inst q] bfs_loop.simps [of ds inst "rev q"])
    qed
  qed
qed

section \<open>The graph a construction builds\<close>

definition graph_state0 :: "(string, app_source) odict \<Rightarrow> diagnostics \<Rightarrow> graph_state" where
  "graph_state0 rs dg = \<lparr>gs_graph = [], gs_dependents = [], gs_dependencies = [], gs_repository = rs, gs_diag = dg\<rparr>"

text \<open>\<open>self._add_source(app_source)\<close> from the constructor, on empty maps; \<open>rs\<close> is what
  \<open>populate_dependency_sources\<close> returned.\<close>

definition build_graph ::
  "(string, app_source) odict \<Rightarrow> (string, string) odict \<Rightarrow> (string, app_source) odict \<Rightarrow> diagnostics \<Rightarrow>
   app_source \<Rightarrow> graph_state" where
  "build_graph ds inst rs dg root = add_source_loop ds inst [root] (graph_state0 rs dg)"

lemma add_source_step_graph:
  "add_source_step ds inst a st = (st', srcs) \<Longrightarrow> gs_graph st' = od_set a (ordered_set srcs) (gs_graph st)"
  by (auto simp: add_source_step_def split: prod.splits)

text \<open>Every dependency of a node is a node or still waiting in the queue.\<close>

definition graph_closed :: "(app_source, app_source list) odict \<Rightarrow> app_source set \<Rightarrow> bool" where
  "graph_closed g Q \<longleftrightarrow> (\<forall>(a, ns) \<in> set g. set ns \<subseteq> fst ` set g \<union> Q)"

lemma graph_closed_concat:
  assumes "graph_closed g {}"
  shows "set (concat (map snd g)) \<subseteq> fst ` set g"
proof
  fix y assume "y \<in> set (concat (map snd g))"
  then obtain a ns where "(a, ns) \<in> set g" "y \<in> set ns" by auto
  with assms show "y \<in> fst ` set g" unfolding graph_closed_def by blast
qed

lemma bfs_loop_invariants:
  "graph_closed (gs_graph st) (set q) \<Longrightarrow> distinct (od_keys (gs_graph st)) \<Longrightarrow>
   graph_closed (gs_graph (bfs_loop ds inst q st)) {} \<and> distinct (od_keys (gs_graph (bfs_loop ds inst q st)))
   \<and> set q \<union> fst ` set (gs_graph st) \<subseteq> fst ` set (gs_graph (bfs_loop ds inst q st))"
proof (induction ds inst q st rule: bfs_loop.induct)
  case (1 ds inst q st)
  show ?case
  proof (cases "q = []")
    case True
    with "1.prems" show ?thesis by (simp add: bfs_loop.simps)
  next
    case False
    then have q: "set q = insert (hd q) (set (tl q))" by (cases q) auto
    show ?thesis
    proof (cases "hd q \<in> set (od_keys (gs_graph st))")
      case True
      with "1.prems" q have "graph_closed (gs_graph st) (set (tl q))"
        by (fastforce simp: graph_closed_def)
      with "1.IH"(1) [OF False True] "1.prems"(2) False True q show ?thesis
        by (auto simp: bfs_loop.simps [of ds inst q])
    next
      case new: False
      obtain st' srcs where step: "add_source_step ds inst (hd q) st = (st', srcs)" by fastforce
      have g': "gs_graph st' = gs_graph st @ [(hd q, ordered_set srcs)]"
        using add_source_step_graph [OF step] new by (simp add: od_set_new)
      have "graph_closed (gs_graph st') (set (tl q @ srcs))"
        using "1.prems"(1) q g' by (auto simp: graph_closed_def)
      moreover have "distinct (od_keys (gs_graph st'))"
        using "1.prems"(2) g' new by simp
      ultimately have ih: "graph_closed (gs_graph (bfs_loop ds inst (tl q @ srcs) st')) {}
         \<and> distinct (od_keys (gs_graph (bfs_loop ds inst (tl q @ srcs) st')))
         \<and> set (tl q @ srcs) \<union> fst ` set (gs_graph st') \<subseteq> fst ` set (gs_graph (bfs_loop ds inst (tl q @ srcs) st'))"
        using "1.IH"(2) [OF False new step [symmetric]] by blast
      have eq: "bfs_loop ds inst q st = bfs_loop ds inst (tl q @ srcs) st'"
        using False new step by (simp add: bfs_loop.simps [of ds inst q])
      show ?thesis using ih q g' unfolding eq by auto
    qed
  qed
qed

text \<open>C9: The graph \<open>_add_source\<close> builds contains the root, has each source once, and
  is closed: every dependency source of a node is itself a node.\<close>

theorem build_graph_closed:
  "root \<in> fst ` set (gs_graph (build_graph ds inst rs dg root))
   \<and> distinct (od_keys (gs_graph (build_graph ds inst rs dg root)))
   \<and> set (concat (map snd (gs_graph (build_graph ds inst rs dg root))))
         \<subseteq> fst ` set (gs_graph (build_graph ds inst rs dg root))"
proof -
  have "graph_closed (gs_graph (graph_state0 rs dg)) (set [root])"
    and "distinct (od_keys (gs_graph (graph_state0 rs dg)))"
    by (simp_all add: graph_state0_def graph_closed_def)
  from bfs_loop_invariants [OF this, of ds inst]
  have "graph_closed (gs_graph (build_graph ds inst rs dg root)) {}"
    and "distinct (od_keys (gs_graph (build_graph ds inst rs dg root)))"
    and "root \<in> fst ` set (gs_graph (build_graph ds inst rs dg root))"
    by (simp_all add: build_graph_def add_source_loop_bfs_loop)
  then show ?thesis using graph_closed_concat by blast
qed

section \<open>Version consistency: _check_dependencies\<close>

fun check_dependents :: "app_source \<Rightarrow> (dependency \<times> app_source) list \<Rightarrow> diagnostics \<Rightarrow> diagnostics" where
  "check_dependents a [] dg = dg"
| "check_dependents a ((d, dependent) # rest) dg =
     check_dependents a rest
       (if range_match (dep_version d) (src_version a) then dg
        else log (ErrVersionSelected (src_id a) (src_id dependent)) dg)"

text \<open>The method has no \<open>return\<close> statement: its value is \<open>None\<close>, modelled as \<open>False\<close>.\<close>

definition check_dependencies ::
  "(app_source, (dependency \<times> app_source) list) odict \<Rightarrow> diagnostics \<Rightarrow> diagnostics \<times> bool" where
  "check_dependencies dm dg = (foldl (\<lambda>dg (a, l). check_dependents a l dg) dg dm, False)"

section \<open>The constructor\<close>

text \<open>\<open>AppDependencyGraph.__init__\<close>: build the graph from the root, then report a cycle,
  or else run \<open>_check_dependencies\<close> and report a conflict if it returned a true value.\<close>

definition app_dependency_graph ::
  "(string, app_source) odict \<Rightarrow> (string, string) odict \<Rightarrow> (string, app_source) odict \<Rightarrow> diagnostics \<Rightarrow>
   app_source \<Rightarrow> graph_state" where
  "app_dependency_graph ds inst rs dg root =
     (let st = build_graph ds inst rs dg root in
      if is_cyclic (gs_graph st) = Some True
      then st\<lparr>gs_diag := log (ErrCyclic (src_id root)) (gs_diag st)\<rparr>
      else (case check_dependencies (gs_dependents st) (gs_diag st) of (dg', conflicted) \<Rightarrow>
              st\<lparr>gs_diag := if conflicted then log (ErrConflicted (src_id root)) dg' else dg'\<rparr>))"

section \<open>What the construction logs\<close>

text \<open>The two messages of the constructor's checks.\<close>

fun is_conflicted :: "diag \<Rightarrow> bool" where
  "is_conflicted (ErrConflicted _) = True"
| "is_conflicted (ErrCyclic _) = True"
| "is_conflicted _ = False"

lemma conflicted_log [simp]:
  "\<not> is_conflicted m \<Longrightarrow> filter is_conflicted (dg_log (log m dg)) = filter is_conflicted (dg_log dg)"
  by (simp add: log_def)

lemma conflicted_get_dependency:
  "get_dependency ds inst a (rs, dg, deps) decl = (rs', dg', deps') \<Longrightarrow>
   filter is_conflicted (dg_log dg') = filter is_conflicted (dg_log dg)"
  by (auto simp: get_dependency_def missing_dependency_def split: prod.splits option.splits if_splits)

lemma conflicted_get_dependencies:
  "foldl (get_dependency ds inst a) (rs, dg, deps) decls = (rs', dg', deps') \<Longrightarrow>
   filter is_conflicted (dg_log dg') = filter is_conflicted (dg_log dg)"
proof (induction decls arbitrary: rs dg deps)
  case (Cons decl decls)
  obtain rs1 dg1 deps1 where s1: "get_dependency ds inst a (rs, dg, deps) decl = (rs1, dg1, deps1)"
    by (cases "get_dependency ds inst a (rs, dg, deps) decl") auto
  with Cons.prems have "foldl (get_dependency ds inst a) (rs1, dg1, deps1) decls = (rs', dg', deps')"
    by simp
  with Cons.IH conflicted_get_dependency [OF s1] show ?case by simp
qed simp

lemma conflicted_add_source_step:
  "add_source_step ds inst a st = (st', srcs) \<Longrightarrow>
   filter is_conflicted (dg_log (gs_diag st')) = filter is_conflicted (dg_log (gs_diag st))"
  using conflicted_get_dependencies [of ds inst a "gs_repository st" "gs_diag st" "[]"]
  by (auto simp: add_source_step_def get_dependencies_def split: prod.splits)

lemma conflicted_bfs_loop:
  "filter is_conflicted (dg_log (gs_diag (bfs_loop ds inst q st))) = filter is_conflicted (dg_log (gs_diag st))"
proof (induction ds inst q st rule: bfs_loop.induct)
  case (1 ds inst q st)
  show ?case
  proof (cases "q = [] \<or> hd q \<in> set (od_keys (gs_graph st))")
    case True
    with "1.IH"(1) show ?thesis by (auto simp: bfs_loop.simps [of ds inst q])
  next
    case False
    obtain st' srcs where step: "add_source_step ds inst (hd q) st = (st', srcs)" by fastforce
    with False "1.IH"(2) [of st' srcs] conflicted_add_source_step [OF step] show ?thesis
      by (simp add: bfs_loop.simps [of ds inst q])
  qed
qed

lemma conflicted_check_dependents:
  "filter is_conflicted (dg_log (check_dependents a l dg)) = filter is_conflicted (dg_log dg)"
  by (induction a l dg rule: check_dependents.induct) simp_all

lemma conflicted_check_dependencies:
  "filter is_conflicted (dg_log (fst (check_dependencies dm dg))) = filter is_conflicted (dg_log dg)"
  unfolding check_dependencies_def
  by (induction dm arbitrary: dg) (auto simp: conflicted_check_dependents)

lemma check_dependents_log:
  "check_dependents a l dg =
     dg\<lparr>dg_log := dg_log dg @ map (\<lambda>(d, s). ErrVersionSelected (src_id a) (src_id s))
                                  (filter (\<lambda>(d, s). \<not> range_match (dep_version d) (src_version a)) l)\<rparr>"
  by (induction a l dg rule: check_dependents.induct) (simp_all add: log_def)

lemma app_dependency_graph_build:
  "gs_diag (build_graph ds inst rs dg root) = gs_diag (bfs_loop ds inst [root] (graph_state0 rs dg))"
  "gs_diag (graph_state0 rs dg) = dg"
  by (simp_all add: build_graph_def add_source_loop_bfs_loop graph_state0_def)

text \<open>\<open>_check_dependencies\<close> logs, in the order of the dependents map, one error for
  every dependent whose declared version range excludes the version selected for the
  dependency, and nothing else; it returns \<open>None\<close> (false).\<close>

theorem check_dependencies_log:
  "check_dependencies dm dg =
     (dg\<lparr>dg_log := dg_log dg @
        concat (map (\<lambda>(a, l). map (\<lambda>(d, s). ErrVersionSelected (src_id a) (src_id s))
                                  (filter (\<lambda>(d, s). \<not> range_match (dep_version d) (src_version a)) l)) dm)\<rparr>,
      False)"
  unfolding check_dependencies_def
  by (induction dm arbitrary: dg) (auto simp: check_dependents_log)

text \<open>C10: of the constructor's two check messages, the cycle error is logged exactly
  when the built graph has a cycle, and the conflict error is never logged: the
  \<open>elif self._check_dependencies()\<close> branch tests a method that returns \<open>None\<close>.\<close>

theorem app_dependency_graph_checks:
  "filter is_conflicted (dg_log (gs_diag (app_dependency_graph ds inst rs dg root))) =
     filter is_conflicted (dg_log dg) @
     (if \<exists>c. (c, c) \<in> (graph_edges (gs_graph (build_graph ds inst rs dg root)))\<^sup>+
      then [ErrCyclic (src_id root)] else [])"
proof -
  let ?st = "build_graph ds inst rs dg root"
  have built: "filter is_conflicted (dg_log (gs_diag ?st)) = filter is_conflicted (dg_log dg)"
    using conflicted_bfs_loop [of ds inst "[root]" "graph_state0 rs dg"] by (simp add: app_dependency_graph_build)
  show ?thesis
  proof (cases "is_cyclic (gs_graph ?st) = Some True")
    case True
    with built is_cyclic_sound [OF True] show ?thesis
      by (simp add: app_dependency_graph_def log_def Let_def)
  next
    case False
    then have "\<not> (\<exists>c. (c, c) \<in> (graph_edges (gs_graph ?st))\<^sup>+)" using is_cyclic_iff by blast
    with False built conflicted_check_dependencies [of "gs_dependents ?st" "gs_diag ?st"] show ?thesis
      by (simp add: app_dependency_graph_def check_dependencies_def Let_def split: prod.splits)
  qed
qed

section \<open>Scenarios\<close>

text \<open>Small concrete sources for the scenarios below.\<close>

definition ex_src :: "string \<Rightarrow> (string \<times> dependency) list \<Rightarrow> app_source" where
  "ex_src n deps = \<lparr>src_id = n, src_package = n, src_version = (1, 0, 0), src_has_manifest = True,
     src_dependencies = deps, src_declared = Some deps, src_input_groups = None\<rparr>"

definition ex_dep :: "string \<Rightarrow> dependency" where
  "ex_dep p = \<lparr>dep_package = Some p, dep_version = AnyVersion, dep_optional = False\<rparr>"

lemma add_source_step_keys:
  "add_source_step ds inst a st = (st', srcs) \<Longrightarrow> a \<notin> set (od_keys (gs_graph st)) \<Longrightarrow>
   od_keys (gs_graph st') = od_keys (gs_graph st) @ [a]"
  by (simp add: add_source_step_graph od_keys_od_set)

text \<open>The loop only appends nodes to the graph.\<close>

lemma bfs_loop_keys_prefix: "\<exists>zs. od_keys (gs_graph (bfs_loop ds inst q st)) = od_keys (gs_graph st) @ zs"
proof (induction ds inst q st rule: bfs_loop.induct)
  case (1 ds inst q st)
  show ?case
  proof (cases "q = []")
    case True
    then show ?thesis by (simp add: bfs_loop.simps)
  next
    case False
    show ?thesis
    proof (cases "hd q \<in> set (od_keys (gs_graph st))")
      case True
      with False "1.IH"(1) show ?thesis by (simp add: bfs_loop.simps [of ds inst q])
    next
      case new: False
      obtain st' srcs where step: "add_source_step ds inst (hd q) st = (st', srcs)" by fastforce
      from "1.IH"(2) [OF False new step [symmetric]] obtain zs
        where "od_keys (gs_graph (bfs_loop ds inst (tl q @ srcs) st')) = od_keys (gs_graph st') @ zs" by blast
      with add_source_step_keys [OF step new] False new step show ?thesis
        by (simp add: bfs_loop.simps [of ds inst q])
    qed
  qed
qed

text \<open>The sources at the front of the queue are processed first: the new ones among them
  become the next nodes of the graph, in order, whatever is queued after them.\<close>

lemma bfs_loop_front:
  "\<exists>st' ys. bfs_loop ds inst (xs @ rest) st = bfs_loop ds inst (rest @ ys) st' \<and>
     od_keys (gs_graph st') = od_keys (gs_graph st) @ ordered_set (filter (\<lambda>s. s \<notin> set (od_keys (gs_graph st))) xs)"
proof (induction xs arbitrary: st rest)
  case Nil
  show ?case by (rule exI [of _ st], rule exI [of _ "[]"]) (simp add: ordered_set_def)
next
  case (Cons x xs)
  show ?case
  proof (cases "x \<in> set (od_keys (gs_graph st))")
    case True
    from Cons.IH [where st = st and rest = rest] True show ?thesis by (simp add: bfs_loop.simps [of ds inst "x # xs @ rest"])
  next
    case new: False
    obtain st1 srcs where step: "add_source_step ds inst x st = (st1, srcs)" by fastforce
    have k1: "od_keys (gs_graph st1) = od_keys (gs_graph st) @ [x]"
      using add_source_step_keys [OF step new] .
    obtain st' ys where run: "bfs_loop ds inst (xs @ rest @ srcs) st1 = bfs_loop ds inst ((rest @ srcs) @ ys) st'"
      and k': "od_keys (gs_graph st') = od_keys (gs_graph st1) @ ordered_set (filter (\<lambda>s. s \<notin> set (od_keys (gs_graph st1))) xs)"
      using Cons.IH [where st = st1 and rest = "rest @ srcs"] by auto
    have "bfs_loop ds inst (x # xs @ rest) st = bfs_loop ds inst (rest @ srcs @ ys) st'"
      using new step run by (simp add: bfs_loop.simps [of ds inst "x # xs @ rest"])
    moreover have "od_keys (gs_graph st') =
        od_keys (gs_graph st) @ ordered_set (filter (\<lambda>s. s \<notin> set (od_keys (gs_graph st))) (x # xs))"
      using k' k1 new by (simp add: ordered_set_Cons ordered_set_filter [symmetric] filter_filter conj_commute)
    ultimately show ?thesis by (intro exI [of _ st'] exI [of _ "srcs @ ys"]) simp
  qed
qed

text \<open>C11 (finding): the deque discipline of \<open>_add_source\<close> is breadth first.  Right after
  the root, the graph's nodes are the root's own dependency sources, in the order
  \<open>_get_dependencies\<close> returns them, before any of their dependencies: the children of
  the most recently dequeued node are not processed first, as the design says.\<close>

theorem build_graph_order:
  "\<exists>rest. od_keys (gs_graph (build_graph ds inst rs dg root)) =
     root # ordered_set (filter (\<lambda>s. s \<noteq> root) (map snd (snd (snd (get_dependencies ds inst rs dg root))))) @ rest"
proof -
  obtain st1 srcs where step: "add_source_step ds inst root (graph_state0 rs dg) = (st1, srcs)" by fastforce
  have srcs: "srcs = map snd (snd (snd (get_dependencies ds inst rs dg root)))"
    using step by (auto simp: add_source_step_def graph_state0_def split: prod.splits)
  have k1: "od_keys (gs_graph st1) = [root]"
    using add_source_step_keys [OF step] by (simp add: graph_state0_def)
  have "build_graph ds inst rs dg root = bfs_loop ds inst (srcs @ []) st1"
    using step by (simp add: build_graph_def add_source_loop_bfs_loop bfs_loop.simps [of ds inst "[root]"] graph_state0_def)
  moreover obtain st' ys where "bfs_loop ds inst (srcs @ []) st1 = bfs_loop ds inst ([] @ ys) st'"
    and k': "od_keys (gs_graph st') = [root] @ ordered_set (filter (\<lambda>s. s \<noteq> root) srcs)"
    using bfs_loop_front [of ds inst srcs "[]" st1] k1 by auto
  moreover obtain zs where "od_keys (gs_graph (bfs_loop ds inst ys st')) = od_keys (gs_graph st') @ zs"
    using bfs_loop_keys_prefix by blast
  ultimately show ?thesis using k' srcs by auto
qed

lemma get_dependencies_optional:
  "\<forall>(name, d) \<in> set decls. dep_optional d \<and> resolve_package inst name d = None \<Longrightarrow>
   foldl (get_dependency ds inst a) (rs, dg, deps) decls =
     (rs, dg\<lparr>dg_log := dg_log dg @ map (WarnSkipOptional \<circ> fst) decls,
             dg_missing_optional := dg_missing_optional dg @ map fst decls\<rparr>, deps)"
  by (induction decls arbitrary: dg) (auto simp: get_dependency_def log_def)

text \<open>C12: when every dependency the root declares is optional, unpinned and not
  installed, construction yields the one-node graph, logs no error, records every such
  name as a missing optional dependency and leaves the payload status alone.\<close>

theorem build_graph_optional_only:
  assumes "\<forall>(name, d) \<in> set (src_dependencies root).
             dep_optional d \<and> \<not> py_truthy (dep_package d) \<and> \<not> py_truthy (map_of inst name)"
  shows "gs_graph (build_graph ds inst rs dg root) = [(root, [])]
    \<and> error_count (gs_diag (build_graph ds inst rs dg root)) = error_count dg
    \<and> dg_missing_optional (gs_diag (build_graph ds inst rs dg root)) = dg_missing_optional dg @ map fst (src_dependencies root)
    \<and> dg_status (gs_diag (build_graph ds inst rs dg root)) = dg_status dg"
proof -
  have "\<forall>(name, d) \<in> set (src_dependencies root). dep_optional d \<and> resolve_package inst name d = None"
    using assms by (auto simp: resolve_package_def)
  from get_dependencies_optional [OF this, of ds root rs dg "[]"]
  have "get_dependencies ds inst rs dg root =
     (rs, dg\<lparr>dg_log := dg_log dg @ map (WarnSkipOptional \<circ> fst) (src_dependencies root),
             dg_missing_optional := dg_missing_optional dg @ map fst (src_dependencies root)\<rparr>, [])"
    by (simp add: get_dependencies_def)
  then show ?thesis
    by (simp add: build_graph_def graph_state0_def add_source_loop.simps [of ds inst "[root]"]
        add_source_loop.simps [of ds inst "[]"] dq_pop_def dq_extendleft_def add_source_step_def
        ordered_set_def error_count_def comp_def)
qed

theorem build_graph_optional_only_witness:
  "gs_graph (build_graph [] [] [] diagnostics0 (ex_src ''pkg-a'' [(''pkg-b'', \<lparr>dep_package = None, dep_version = AnyVersion, dep_optional = True\<rparr>)])) = [(ex_src ''pkg-a'' [(''pkg-b'', \<lparr>dep_package = None, dep_version = AnyVersion, dep_optional = True\<rparr>)], [])]
    \<and> error_count (gs_diag (build_graph [] [] [] diagnostics0 (ex_src ''pkg-a'' [(''pkg-b'', \<lparr>dep_package = None, dep_version = AnyVersion, dep_optional = True\<rparr>)]))) = error_count diagnostics0
    \<and> dg_missing_optional (gs_diag (build_graph [] [] [] diagnostics0 (ex_src ''pkg-a'' [(''pkg-b'', \<lparr>dep_package = None, dep_version = AnyVersion, dep_optional = True\<rparr>)]))) = dg_missing_optional diagnostics0 @ [''pkg-b'']
    \<and> dg_status (gs_diag (build_graph [] [] [] diagnostics0 (ex_src ''pkg-a'' [(''pkg-b'', \<lparr>dep_package = None, dep_version = AnyVersion, dep_optional = True\<rparr>)]))) = dg_status diagnostics0"
  using build_graph_optional_only [of "ex_src ''pkg-a'' [(''pkg-b'', \<lparr>dep_package = None, dep_version = AnyVersion, dep_optional = True\<rparr>)]" "[]" "[]" "[]" diagnostics0]
  by (simp add: ex_src_def)

end
