(* ===== verification/FileReader.thy ===== *)
theory FileReader
  imports Prelude
begin

text \<open>
  \<open>FileReader\<close> (src/slim/app/_internal/file_reader.py): an iterator over the lines of an
  input stream with a line counter and a one-line put-back buffer, used by the
  configuration-file parsers.  The stream is the list of lines it has still to yield
  (\<open>next(self._istream)\<close> takes the head, \<open>StopIteration\<close> when it is empty); the reader
  is the record \<open>file_reader\<close> with the four attributes of the object.  Each method is a
  function from the reader to its result and the updated reader, an exception being an
  \<open>Inl\<close> value.  \<open>__iter__\<close> is a generator; it is modelled by the list of lines it yields
  when run to its end.
\<close>

section \<open>State and methods\<close>

record file_reader =
  fr_filename :: string
  fr_istream :: "string list"
  fr_line_number :: nat
  fr_line :: "string option"

definition file_reader_init :: "string list \<Rightarrow> string \<Rightarrow> file_reader" where
  "file_reader_init istream filename =
     \<lparr>fr_filename = filename, fr_istream = istream, fr_line_number = 0, fr_line = None\<rparr>"

text \<open>\<open>line = next(self._istream); self._line_number += 1\<close>.\<close>

definition fr_read_stream :: "file_reader \<Rightarrow> py_error + string \<times> file_reader" where
  "fr_read_stream r =
     (case fr_istream r of
        [] \<Rightarrow> Inl StopIteration
      | l # ls \<Rightarrow> Inr (l, r\<lparr>fr_istream := ls, fr_line_number := Suc (fr_line_number r)\<rparr>))"

text \<open>\<open>__next__\<close>: a put-back line is returned (and cleared) only when it is truthy.\<close>

definition fr_next :: "file_reader \<Rightarrow> py_error + string \<times> file_reader" where
  "fr_next r =
     (case fr_line r of
        Some l \<Rightarrow> if l \<noteq> [] then Inr (l, r\<lparr>fr_line := None\<rparr>) else fr_read_stream r
      | None \<Rightarrow> fr_read_stream r)"

definition fr_put_back :: "string \<Rightarrow> file_reader \<Rightarrow> py_error + file_reader" where
  "fr_put_back l r = (if fr_line r = None then Inr (r\<lparr>fr_line := Some l\<rparr>) else Inl AssertionError)"

text \<open>What the reader can still yield: the stream, and one more line if the buffer
  holds a truthy one.  Every successful \<open>__next__\<close> decreases it.\<close>

definition fr_size :: "file_reader \<Rightarrow> nat" where
  "fr_size r = length (fr_istream r) + (if py_truthy (fr_line r) then 1 else 0)"

lemma fr_next_size: "fr_next r = Inr (l, r') \<Longrightarrow> fr_size r' < fr_size r"
  by (auto simp: fr_next_def fr_read_stream_def fr_size_def split: option.splits list.splits if_splits)

lemma fr_next_error: "fr_next r = Inl e \<Longrightarrow> e = StopIteration"
  by (auto simp: fr_next_def fr_read_stream_def split: option.splits list.splits if_splits)

text \<open>\<open>__iter__\<close>: yield lines until an empty one (consumed, not yielded) or
  \<open>StopIteration\<close> (the only exception \<open>__next__\<close> raises).\<close>

function fr_iter :: "file_reader \<Rightarrow> string list \<times> file_reader" where
  "fr_iter r =
     (case fr_next r of
        Inl _ \<Rightarrow> ([], r)
      | Inr (l, r') \<Rightarrow> if l = [] then ([], r') else (case fr_iter r' of (ls, r'') \<Rightarrow> (l # ls, r'')))"
  by pat_completeness auto
termination
  by (relation "measure fr_size") (auto intro: fr_next_size)

text \<open>\<open>line.endswith('\\\n')\<close>: a backslash followed by a newline.\<close>

definition ends_continued :: "string \<Rightarrow> bool" where
  "ends_continued l \<longleftrightarrow> 2 \<le> length l \<and> drop (length l - 2) l = [CHR 0x5C, CHR 0x0A]"

text \<open>\<open>read_continuation\<close>: \<open>line = line[:-2] + '\n' + continuation\<close> while the line ends in a
  backslash-newline and \<open>__next__\<close> does not raise \<open>StopIteration\<close>.\<close>

function fr_read_continuation :: "file_reader \<Rightarrow> string \<Rightarrow> string \<times> file_reader" where
  "fr_read_continuation r line =
     (if ends_continued line
      then (case fr_next r of
              Inl _ \<Rightarrow> (line, r)
            | Inr (c, r') \<Rightarrow> fr_read_continuation r' (take (length line - 2) line @ [CHR 0x0A] @ c))
      else (line, r))"
  by pat_completeness auto
termination
  by (relation "measure (\<lambda>(r, line). fr_size r)") (auto intro: fr_next_size)


declare fr_iter.simps [simp del] fr_read_continuation.simps [simp del]

section \<open>Sequences of calls\<close>

text \<open>A client's calls on one reader, in order; a run stops at the first exception.\<close>

datatype fr_op = OpNext | OpPutBack string | OpReadContinuation string | OpIter

fun fr_exec :: "fr_op \<Rightarrow> file_reader \<Rightarrow> py_error + file_reader" where
  "fr_exec OpNext r = (case fr_next r of Inl e \<Rightarrow> Inl e | Inr (_, r') \<Rightarrow> Inr r')"
| "fr_exec (OpPutBack l) r = fr_put_back l r"
| "fr_exec (OpReadContinuation l) r = Inr (snd (fr_read_continuation r l))"
| "fr_exec OpIter r = Inr (snd (fr_iter r))"

fun fr_run :: "fr_op list \<Rightarrow> file_reader \<Rightarrow> py_error + file_reader" where
  "fr_run [] r = Inr r"
| "fr_run (op # ops) r = (case fr_exec op r of Inl e \<Rightarrow> Inl e | Inr r' \<Rightarrow> fr_run ops r')"

section \<open>Properties\<close>

text \<open>The counter and the stream agree: the stream is what is left of the input after
  \<open>_line_number\<close> lines.\<close>

definition fr_counts :: "string list \<Rightarrow> file_reader \<Rightarrow> bool" where
  "fr_counts xs r \<longleftrightarrow> fr_istream r = drop (fr_line_number r) xs \<and> fr_line_number r \<le> length xs"

lemma fr_counts_line [simp]: "fr_counts xs (r\<lparr>fr_line := x\<rparr>) = fr_counts xs r"
  by (simp add: fr_counts_def)

lemma fr_counts_read_stream: "fr_counts xs r \<Longrightarrow> fr_read_stream r = Inr (l, r') \<Longrightarrow> fr_counts xs r'"
  by (auto simp: fr_read_stream_def fr_counts_def split: list.splits dest: drop_eq_ConsD)

lemma fr_counts_next: "fr_counts xs r \<Longrightarrow> fr_next r = Inr (l, r') \<Longrightarrow> fr_counts xs r'"
  unfolding fr_next_def
  by (auto split: option.splits if_splits intro: fr_counts_read_stream)

lemma fr_iter_Inl: "fr_next r = Inl e \<Longrightarrow> fr_iter r = ([], r)"
  by (simp add: fr_iter.simps [of r])

lemma fr_iter_Inr:
  "fr_next r = Inr (l, r') \<Longrightarrow> fr_iter r = (if l = [] then ([], r') else (l # fst (fr_iter r'), snd (fr_iter r')))"
  by (simp add: fr_iter.simps [of r] split: prod.split)

lemma fr_read_continuation_Inl:
  "ends_continued line \<Longrightarrow> fr_next r = Inl e \<Longrightarrow> fr_read_continuation r line = (line, r)"
  by (simp add: fr_read_continuation.simps [of r line])

lemma fr_read_continuation_Inr:
  "ends_continued line \<Longrightarrow> fr_next r = Inr (c, r') \<Longrightarrow>
   fr_read_continuation r line = fr_read_continuation r' (take (length line - 2) line @ [CHR 0x0A] @ c)"
  by (simp add: fr_read_continuation.simps [of r line])

lemma fr_read_continuation_done: "\<not> ends_continued line \<Longrightarrow> fr_read_continuation r line = (line, r)"
  by (simp add: fr_read_continuation.simps [of r line])

text \<open>Every property of readers that \<open>__next__\<close> preserves is preserved by
  \<open>__iter__\<close> and \<open>read_continuation\<close>.\<close>

lemma fr_iter_preserves:
  assumes step: "\<And>r l r'. P r \<Longrightarrow> fr_next r = Inr (l, r') \<Longrightarrow> P r'"
  shows "P r \<Longrightarrow> P (snd (fr_iter r))"
proof (induction r rule: fr_iter.induct)
  case (1 r)
  show ?case
  proof (cases "fr_next r")
    case (Inl e)
    with "1.prems" show ?thesis by (simp add: fr_iter_Inl)
  next
    case (Inr p)
    obtain l r' where p: "p = (l, r')" by (cases p)
    with Inr "1.prems" have "P r'" by (blast intro: step)
    with "1.IH" [OF Inr [unfolded p]] Inr p show ?thesis by (simp add: fr_iter_Inr)
  qed
qed

lemma fr_read_continuation_preserves:
  assumes step: "\<And>r l r'. P r \<Longrightarrow> fr_next r = Inr (l, r') \<Longrightarrow> P r'"
  shows "P r \<Longrightarrow> P (snd (fr_read_continuation r line))"
proof (induction r line rule: fr_read_continuation.induct)
  case (1 r line)
  show ?case
  proof (cases "ends_continued line")
    case True
    show ?thesis
    proof (cases "fr_next r")
      case (Inl e)
      with True "1.prems" show ?thesis by (simp add: fr_read_continuation_Inl)
    next
      case (Inr p)
      obtain c r' where p: "p = (c, r')" by (cases p)
      with Inr "1.prems" have "P r'" by (blast intro: step)
      with "1.IH" [OF True Inr [unfolded p]] True Inr p show ?thesis
        by (simp add: fr_read_continuation_Inr)
    qed
  next
    case False
    with "1.prems" show ?thesis by (simp add: fr_read_continuation_done)
  qed
qed

lemma fr_counts_iter: "fr_counts xs r \<Longrightarrow> fr_counts xs (snd (fr_iter r))"
  by (rule fr_iter_preserves [OF fr_counts_next])

lemma fr_counts_read_continuation: "fr_counts xs r \<Longrightarrow> fr_counts xs (snd (fr_read_continuation r line))"
  by (rule fr_read_continuation_preserves [OF fr_counts_next])

lemma fr_counts_exec: "fr_counts xs r \<Longrightarrow> fr_exec op r = Inr r' \<Longrightarrow> fr_counts xs r'"
  by (cases op)
     (auto simp: fr_put_back_def fr_counts_iter fr_counts_read_continuation
        intro: fr_counts_next split: sum.splits if_splits)


lemma fr_counts_run: "fr_counts xs r \<Longrightarrow> fr_run ops r = Inr r' \<Longrightarrow> fr_counts xs r'"
  by (induction ops arbitrary: r) (auto split: sum.splits intro: fr_counts_exec)

lemma fr_next_untruthy: "\<not> py_truthy (fr_line r) \<Longrightarrow> fr_next r = fr_read_stream r"
  by (cases "fr_line r") (auto simp: fr_next_def)

lemma fr_read_stream_line: "fr_read_stream r = Inr (l, r') \<Longrightarrow> fr_line r' = fr_line r"
  by (auto simp: fr_read_stream_def split: list.splits)

text \<open>C13: whatever sequence of calls a client makes, \<open>_line_number\<close> counts exactly the
  lines taken from the stream: the stream left is the input without its first
  \<open>_line_number\<close> lines.\<close>

theorem fr_run_line_number:
  "fr_run ops (file_reader_init xs f) = Inr r \<Longrightarrow>
   fr_istream r = drop (fr_line_number r) xs \<and> fr_line_number r \<le> length xs"
  using fr_counts_run [of xs "file_reader_init xs f" ops r]
  by (simp add: fr_counts_def file_reader_init_def)

theorem fr_run_line_number_witness:
  "fr_run [OpNext, OpPutBack ''a'', OpNext, OpNext] (file_reader_init [''a'', ''b'', ''c''] ''f'') =
     Inr \<lparr>fr_filename = ''f'', fr_istream = [''c''], fr_line_number = 2, fr_line = None\<rparr>
   \<and> [''c''] = drop 2 [''a'', ''b'', ''c''] \<and> (2::nat) \<le> length [''a'', ''b'', ''c'']"
proof -
  have run: "fr_run [OpNext, OpPutBack ''a'', OpNext, OpNext] (file_reader_init [''a'', ''b'', ''c''] ''f'') =
     Inr \<lparr>fr_filename = ''f'', fr_istream = [''c''], fr_line_number = 2, fr_line = None\<rparr>"
    by (simp add: file_reader_init_def fr_next_def fr_read_stream_def fr_put_back_def)
  from fr_run_line_number [OF run] run show ?thesis by simp
qed

text \<open>C14: a line put back is the next line read, and reading it restores the reader
  as it was before \<open>put_back\<close>.\<close>

theorem fr_put_back_next: "fr_put_back l r = Inr r' \<Longrightarrow> l \<noteq> [] \<Longrightarrow> fr_next r' = Inr (l, r)"
  by (auto simp: fr_put_back_def fr_next_def split: if_splits)

theorem fr_put_back_next_witness:
  "fr_put_back ''x'' (file_reader_init [''a''] ''f'') = Inr ((file_reader_init [''a''] ''f'')\<lparr>fr_line := Some ''x''\<rparr>)
   \<and> fr_next ((file_reader_init [''a''] ''f'')\<lparr>fr_line := Some ''x''\<rparr>) = Inr (''x'', file_reader_init [''a''] ''f'')"
proof -
  have pb: "fr_put_back ''x'' (file_reader_init [''a''] ''f'') = Inr ((file_reader_init [''a''] ''f'')\<lparr>fr_line := Some ''x''\<rparr>)"
    by (simp add: fr_put_back_def file_reader_init_def)
  from fr_put_back_next [OF pb] pb show ?thesis by simp
qed

text \<open>C15: Iterating a reader with no pending line yields the stream's lines up to the
  first empty one.\<close>

theorem fr_iter_lines:
  "\<not> py_truthy (fr_line r) \<Longrightarrow> fst (fr_iter r) = takeWhile (\<lambda>l. l \<noteq> []) (fr_istream r)"
proof (induction "fr_istream r" arbitrary: r)
  case Nil
  then have "fr_next r = Inl StopIteration"
    by (simp add: fr_next_untruthy fr_read_stream_def)
  with Nil show ?case by (simp add: fr_iter_Inl)
next
  case (Cons l ls)
  let ?r' = "r\<lparr>fr_istream := ls, fr_line_number := Suc (fr_line_number r)\<rparr>"
  have n: "fr_next r = Inr (l, ?r')"
    using Cons.prems Cons.hyps(2) [symmetric] by (simp add: fr_next_untruthy fr_read_stream_def)
  have "fst (fr_iter ?r') = takeWhile (\<lambda>l. l \<noteq> []) ls"
    using Cons.hyps(1) [of ?r'] Cons.prems by simp
  with n Cons.hyps(2) [symmetric] show ?case by (simp add: fr_iter_Inr)
qed

theorem fr_iter_lines_witness:
  "\<not> py_truthy (fr_line (file_reader_init [''a'', ''b'', [], ''c''] ''f''))
   \<and> fst (fr_iter (file_reader_init [''a'', ''b'', [], ''c''] ''f'')) = [''a'', ''b'']"
  using fr_iter_lines [of "file_reader_init [''a'', ''b'', [], ''c''] ''f''"]
  by (simp add: file_reader_init_def)

text \<open>\<open>read_continuation\<close> stops at the first line that does not end in a
  backslash-newline: a result that still ends in one means the stream is exhausted.\<close>

theorem fr_read_continuation_complete:
  "fr_next (snd (fr_read_continuation r line)) \<noteq> Inl StopIteration \<Longrightarrow>
   \<not> ends_continued (fst (fr_read_continuation r line))"
proof (induction r line rule: fr_read_continuation.induct)
  case (1 r line)
  show ?case
  proof (cases "ends_continued line")
    case True
    show ?thesis
    proof (cases "fr_next r")
      case (Inl e)
      with True "1.prems" fr_next_error [OF Inl] show ?thesis by (simp add: fr_read_continuation_Inl)
    next
      case (Inr p)
      obtain c r' where p: "p = (c, r')" by (cases p)
      with "1.IH" [OF True Inr [unfolded p]] "1.prems" True Inr show ?thesis
        by (simp add: fr_read_continuation_Inr)
    qed
  next
    case False
    then show ?thesis by (simp add: fr_read_continuation_done)
  qed
qed

theorem fr_read_continuation_complete_witness:
  "fr_next (snd (fr_read_continuation (file_reader_init [''b'' @ [CHR 0x5C, CHR 0x0A], ''c'', ''d''] ''f'') (''a'' @ [CHR 0x5C, CHR 0x0A])))
     \<noteq> Inl StopIteration
   \<and> \<not> ends_continued (fst (fr_read_continuation (file_reader_init [''b'' @ [CHR 0x5C, CHR 0x0A], ''c'', ''d''] ''f'') (''a'' @ [CHR 0x5C, CHR 0x0A])))"
proof -
  have "fr_next (snd (fr_read_continuation (file_reader_init [''b'' @ [CHR 0x5C, CHR 0x0A], ''c'', ''d''] ''f'') (''a'' @ [CHR 0x5C, CHR 0x0A])))
     \<noteq> Inl StopIteration"
    by (simp add: fr_read_continuation.simps ends_continued_def fr_next_def fr_read_stream_def file_reader_init_def)
  with fr_read_continuation_complete show ?thesis by blast
qed

lemma fr_next_empty_pending: "fr_line r = Some [] \<Longrightarrow> fr_next r = Inr (l, r') \<Longrightarrow> fr_line r' = Some []"
  by (simp add: fr_next_def fr_read_stream_line)

lemma fr_exec_empty_pending: "fr_line r = Some [] \<Longrightarrow> fr_exec op r = Inr r' \<Longrightarrow> fr_line r' = Some []"
proof (cases op)
  case OpNext
  then show "fr_line r = Some [] \<Longrightarrow> fr_exec op r = Inr r' \<Longrightarrow> fr_line r' = Some []"
    by (auto split: sum.splits intro: fr_next_empty_pending)
qed (auto simp: fr_put_back_def intro: fr_iter_preserves [where P = "\<lambda>r. fr_line r = Some []"]
       fr_read_continuation_preserves [where P = "\<lambda>r. fr_line r = Some []"] fr_next_empty_pending)

lemma fr_run_empty_pending: "fr_line r = Some [] \<Longrightarrow> fr_run ops r = Inr r' \<Longrightarrow> fr_line r' = Some []"
  by (induction ops arbitrary: r) (auto split: sum.splits dest: fr_exec_empty_pending)

text \<open>C16 (finding): \<open>__next__\<close> tests the put-back buffer for truthiness, so an empty line
  put back is never returned nor cleared: after any sequence of calls that follows, the
  next line still comes from the stream and every \<open>put_back\<close> fails its assertion.\<close>

theorem fr_put_back_empty:
  "fr_put_back [] r = Inr r1 \<Longrightarrow> fr_run ops r1 = Inr r' \<Longrightarrow>
   fr_next r' = fr_read_stream r' \<and> fr_put_back l r' = Inl AssertionError"
proof -
  assume pb: "fr_put_back [] r = Inr r1" and run: "fr_run ops r1 = Inr r'"
  from pb have "fr_line r1 = Some []" by (auto simp: fr_put_back_def split: if_splits)
  then have "fr_line r' = Some []" using run by (rule fr_run_empty_pending)
  then show ?thesis by (simp add: fr_next_def fr_put_back_def)
qed

theorem fr_put_back_empty_witness:
  "fr_next \<lparr>fr_filename = ''f'', fr_istream = [], fr_line_number = 1, fr_line = Some []\<rparr> = Inl StopIteration
   \<and> fr_put_back ''x'' \<lparr>fr_filename = ''f'', fr_istream = [], fr_line_number = 1, fr_line = Some []\<rparr> = Inl AssertionError"
proof -
  have pb: "fr_put_back [] (file_reader_init [''a''] ''f'') = Inr ((file_reader_init [''a''] ''f'')\<lparr>fr_line := Some []\<rparr>)"
    by (simp add: fr_put_back_def file_reader_init_def)
  have run: "fr_run [OpNext] ((file_reader_init [''a''] ''f'')\<lparr>fr_line := Some []\<rparr>) =
      Inr \<lparr>fr_filename = ''f'', fr_istream = [], fr_line_number = 1, fr_line = Some []\<rparr>"
    by (simp add: file_reader_init_def fr_next_def fr_read_stream_def)
  from fr_put_back_empty [OF pb run, of "''x''"] show ?thesis by (simp add: fr_read_stream_def)
qed

end
