(* ===== verification/JsonData.thy ===== *)
theory JsonData
  imports Prelude
begin

text \<open>
  The JSON schema framework of src/slim/app/_internal/json_data.py: a schema is a
  \<open>JsonValue\<close> (a data type, an optional converter, a default and whether a value is
  required) over the data types \<open>JsonArray\<close>, \<open>JsonBoolean\<close>, \<open>JsonNumber\<close>,
  \<open>JsonObject\<close> (fixed fields and/or a definition for any other field) and \<open>JsonString\<close>,
  the datatypes \<open>json_type\<close> and \<open>json_value\<close> below.  \<open>validate\<close> returns its Boolean and
  the messages it passes to \<open>onerror\<close>; \<open>convert_from\<close> is modelled with the schema's own
  \<open>onerror\<close>, which raises, so that the first message ends the conversion (an \<open>Inl\<close>),
  and exceptions that the code does not catch are \<open>JErrRaised\<close>.  A converter object is
  its \<open>convert_from\<close> method, a function on decoded values.  Python's iteration of a
  string (its characters) and of a dictionary (its keys) is \<open>py_iter\<close>.  The HTML
  rendering (\<open>to_html\<close>) and the \<open>convert_to\<close> methods are not modelled.
\<close>
section \<open>Schemas\<close>

datatype jerr =
    JErrRequired string string
  | JErrType string string json
  | JErrIllegalField string string
  | JErrConvert string py_error
  | JErrRaised py_error

datatype json_type =
    JsonArray json_value
  | JsonBoolean
  | JsonNumber
  | JsonObject "(string \<times> json_value) list option" "json_value option"
  | JsonString
and json_value =
    JsonValue (jv_type: json_type) (jv_converter: "(json \<Rightarrow> py_error + json) option")
      (jv_default: json) (jv_required: bool)

fun type_name :: "json_type \<Rightarrow> string" where
  "type_name (JsonArray (JsonValue t _ _ _)) = ''Array of '' @ type_name t"
| "type_name JsonBoolean = ''Boolean''"
| "type_name JsonNumber = ''Number''"
| "type_name (JsonObject _ _) = ''Object''"
| "type_name JsonString = ''String''"

fun py_iter :: "json \<Rightarrow> json list option" where
  "py_iter (JArr xs) = Some xs"
| "py_iter (JObj kvs) = Some (map (JStr \<circ> fst) kvs)"
| "py_iter (JStr s) = Some (map (\<lambda>c. JStr [c]) s)"
| "py_iter _ = None"

fun is_instance :: "json_type \<Rightarrow> json \<Rightarrow> bool" where
  "is_instance (JsonArray (JsonValue t _ _ _)) v = (py_iter v \<noteq> None \<or> is_instance t v)"
| "is_instance JsonBoolean v = (case v of JBool _ \<Rightarrow> True | _ \<Rightarrow> False)"
| "is_instance JsonNumber v = (case v of JNum _ \<Rightarrow> True | _ \<Rightarrow> False)"
| "is_instance (JsonObject _ _) v = (case v of JObj _ \<Rightarrow> True | _ \<Rightarrow> False)"
| "is_instance JsonString v = (case v of JStr _ \<Rightarrow> True | _ \<Rightarrow> False)"

definition json_get :: "json \<Rightarrow> string \<Rightarrow> json" where
  "json_get v k = (case v of JObj kvs \<Rightarrow> (case map_of kvs k of Some x \<Rightarrow> x | None \<Rightarrow> JNull) | _ \<Rightarrow> JNull)"

definition json_keys :: "json \<Rightarrow> string list" where
  "json_keys v = (case v of JObj kvs \<Rightarrow> map fst kvs | _ \<Rightarrow> [])"

fun digit_str :: "nat \<Rightarrow> string" where
  "digit_str n = (if n < 10 then [char_of (48 + n)] else digit_str (n div 10) @ [char_of (48 + n mod 10)])"

declare digit_str.simps [simp del]

definition json_iter :: "json \<Rightarrow> json list" where
  "json_iter v = (case py_iter v of Some es \<Rightarrow> es | None \<Rightarrow> [])"

text \<open>The outcome of \<open>validate\<close>: its Boolean result, or the exception it raised, with
  the messages it passed to \<open>onerror\<close> before, in order.\<close>

type_synonym vresult = "(py_error + bool) \<times> jerr list"

definition type_error :: "json_type \<Rightarrow> string \<Rightarrow> json \<Rightarrow> vresult" where
  "type_error t name v = (Inr False, [JErrType (type_name t) name v])"

text \<open>\<open>enumerate(value)\<close> on a value that is not iterable.\<close>

definition not_iterable :: py_error where
  "not_iterable = TypeError ''object is not iterable''"

definition extra_keys :: "(string \<times> json_value) list \<Rightarrow> json \<Rightarrow> string list" where
  "extra_keys fds v = filter (\<lambda>k. k \<notin> set (map fst fds)) (json_keys v)"

text \<open>\<open>error_count += child.validate(...) is False\<close> \<dots> \<open>return error_count == 0\<close>, with the
  messages passed to \<open>onerror\<close> collected in order; an exception of a child ends the loop.\<close>

fun all_ok :: "vresult list \<Rightarrow> vresult" where
  "all_ok [] = (Inr True, [])"
| "all_ok ((Inl e, ms) # rs) = (Inl e, ms)"
| "all_ok ((Inr b, ms) # rs) = (case all_ok rs of (r, ms') \<Rightarrow> (map_sum id ((\<and>) b) r, ms @ ms'))"

text \<open>\<open>validate\<close> of the data types and of \<open>JsonValue\<close>.  An array validates its elements
  (the last line of \<open>JsonArray.validate\<close> is unreachable: \<open>is_instance\<close> has just
  held); a value that is an instance of the element type without being iterable (a number
  under an array of numbers) makes \<open>enumerate\<close> raise \<open>TypeError\<close>.\<close>

function (sequential) jt_validate :: "json_type \<Rightarrow> string \<Rightarrow> json \<Rightarrow> vresult"
and jv_validate :: "json_value \<Rightarrow> string \<Rightarrow> json \<Rightarrow> vresult" where
  "jt_validate (JsonArray d) name v =
     (if \<not> is_instance (JsonArray d) v then type_error (JsonArray d) name v
      else (case py_iter v of
              None \<Rightarrow> (Inl not_iterable, [])
            | Some es \<Rightarrow> all_ok (map (\<lambda>(i, e). jv_validate d (name @ ''['' @ digit_str i @ '']'') e) (enumerate 0 es))))"
| "jt_validate (JsonObject None None) name v =
     (if \<not> is_instance (JsonObject None None) v then type_error (JsonObject None None) name v else (Inr True, []))"
| "jt_validate (JsonObject None (Some x)) name v =
     (if \<not> is_instance (JsonObject None (Some x)) v then type_error (JsonObject None (Some x)) name v
      else all_ok (map (\<lambda>k. jv_validate x (name @ ''.'' @ k) (json_get v k)) (json_keys v)))"
| "jt_validate (JsonObject (Some fds) None) name v =
     (if \<not> is_instance (JsonObject (Some fds) None) v then type_error (JsonObject (Some fds) None) name v
      else all_ok (map (\<lambda>(k, f). jv_validate f (name @ ''.'' @ k) (json_get v k)) fds @
                   map (\<lambda>k. (Inr False, [JErrIllegalField name k])) (extra_keys fds v)))"
| "jt_validate (JsonObject (Some fds) (Some x)) name v =
     (if \<not> is_instance (JsonObject (Some fds) (Some x)) v then type_error (JsonObject (Some fds) (Some x)) name v
      else all_ok (map (\<lambda>(k, f). jv_validate f (name @ ''.'' @ k) (json_get v k)) fds @
                   map (\<lambda>k. jv_validate x (name @ ''.'' @ k) (json_get v k)) (extra_keys fds v)))"
| "jt_validate t name v = (if \<not> is_instance t v then type_error t name v else (Inr True, []))"
| "jv_validate (JsonValue t c d r) name v =
     (if v = JNull then (if r then (Inr False, [JErrRequired (type_name t) name]) else (Inr True, []))
      else jt_validate t name v)"
  by pat_completeness auto
termination
proof (relation "measure (\<lambda>x. case x of Inl (t, _, _) \<Rightarrow> size t | Inr (d, _, _) \<Rightarrow> size d)", goal_cases)
  case 1
  show ?case by simp
qed (auto dest!: size_list_estimation' [where f = "size_prod (\<lambda>_. 0) size", OF _ order_refl])

section \<open>Conversion\<close>

text \<open>The first message passed to \<open>onerror\<close> raises (the schema's \<open>_onerror\<close>); without
  a message, an exception of \<open>validate\<close> propagates.\<close>

definition raise_first :: "vresult \<Rightarrow> jerr + unit" where
  "raise_first r = (case snd r of [] \<Rightarrow> (case fst r of Inl e \<Rightarrow> Inl (JErrRaised e) | Inr _ \<Rightarrow> Inr ()) | e # _ \<Rightarrow> Inl e)"

text \<open>\<open>try: value = converter.convert_from(self, value) except (TypeError, ValueError) as error:
  onerror(name, ': ', error)\<close>.\<close>

definition apply_converter :: "(json \<Rightarrow> py_error + json) option \<Rightarrow> string \<Rightarrow> json \<Rightarrow> jerr + json" where
  "apply_converter c name v =
     (case c of None \<Rightarrow> Inr v
      | Some f \<Rightarrow> (case f v of
           Inr v' \<Rightarrow> Inr v'
         | Inl (ValueError m) \<Rightarrow> Inl (JErrConvert name (ValueError m))
         | Inl (TypeError m) \<Rightarrow> Inl (JErrConvert name (TypeError m))
         | Inl e \<Rightarrow> Inl (JErrRaised e)))"

text \<open>\<open>dict(iterable)\<close> on the converted elements: each must be a pair.\<close>

fun dict_item :: "json \<Rightarrow> py_error + string \<times> json" where
  "dict_item (JStr [a, b]) = Inr ([a], JStr [b])"
| "dict_item (JStr _) = Inl (ValueError ''dictionary update sequence element has the wrong length'')"
| "dict_item (JArr [JStr k, v]) = Inr (k, v)"
| "dict_item (JArr [_, _]) = Inl (TypeError ''unhashable type'')"
| "dict_item (JArr _) = Inl (ValueError ''dictionary update sequence element has the wrong length'')"
| "dict_item (JObj [(a, _), (b, _)]) = Inr (a, JStr b)"
| "dict_item (JObj _) = Inl (ValueError ''dictionary update sequence element has the wrong length'')"
| "dict_item _ = Inl (TypeError ''cannot convert dictionary update sequence element to a sequence'')"

definition py_dict :: "json list \<Rightarrow> jerr + json" where
  "py_dict xs = (case foldM (\<lambda>m x. case dict_item x of Inl e \<Rightarrow> Inl e | Inr (k, v) \<Rightarrow> Inr (od_set k v m)) [] xs of
                   Inl e \<Rightarrow> Inl (JErrRaised e) | Inr m \<Rightarrow> Inr (JObj m))"


text \<open>\<open>str.format\<close> with one positional argument, for the element names of an array.
  Doubled braces are literal; \<open>{0}\<close> is the argument; \<open>{}\<close> (automatic numbering, which
  the trailing \<open>{0}\<close> then contradicts) and single braces raise \<open>ValueError\<close>; a larger
  index raises \<open>IndexError\<close> and a name \<open>KeyError\<close>.  Attribute and index lookups and
  format specifications inside a field are not modelled.\<close>

fun py_format :: "string \<Rightarrow> string \<Rightarrow> py_error + string" where
  "py_format [] a = Inr []"
| "py_format (c # s) a =
     (if c = CHR ''{'' then
        (case s of
           d # s' \<Rightarrow> if d = CHR ''{'' then map_sum id (Cons c) (py_format s' a)
                    else (case takeWhile (\<lambda>x. x \<noteq> CHR ''}'') s of f \<Rightarrow>
                            if length f = length s then Inl (ValueError ''Single '{' encountered in format string'')
                            else if f = ''0'' then map_sum id ((@) a) (py_format (drop (Suc (length f)) s) a)
                            else if f = [] then Inl (ValueError ''cannot switch from automatic field numbering to manual field specification'')
                            else if list_all (\<lambda>x. x \<in> set ''0123456789'') f then Inl IndexError
                            else Inl KeyError)
         | [] \<Rightarrow> Inl (ValueError ''Single '{' encountered in format string''))
      else if c = CHR ''}'' then
        (case s of
           d # s' \<Rightarrow> if d = CHR ''}'' then map_sum id (Cons c) (py_format s' a)
                    else Inl (ValueError ''Single '}' encountered in format string'')
         | [] \<Rightarrow> Inl (ValueError ''Single '}' encountered in format string''))
      else map_sum id (Cons c) (py_format s a))"


definition elem_name :: "string \<Rightarrow> nat \<Rightarrow> py_error + string" where
  "elem_name name i = py_format (name @ ''[{0}]'') (digit_str i)"

function (sequential) jt_convert ::
  "json_type \<Rightarrow> (json \<Rightarrow> py_error + json) option \<Rightarrow> json \<Rightarrow> string \<Rightarrow> json \<Rightarrow> jerr + json"
and jv_convert :: "json_value \<Rightarrow> string \<Rightarrow> json \<Rightarrow> jerr + json" where
  "jt_convert (JsonArray d) c dflt name v =
     (case raise_first (jt_validate (JsonArray d) name v) of
        Inl e \<Rightarrow> Inl e
      | Inr _ \<Rightarrow>
          (case (if is_instance (jv_type d) v then map_sum id (\<lambda>x. JArr [x]) (jv_convert d name v)
                 else (case v of
                         JArr xs \<Rightarrow>
                           map_sum id JArr (foldM (\<lambda>acc (i, e). case elem_name name i of
                                 Inl err \<Rightarrow> Inl (JErrRaised err)
                               | Inr n \<Rightarrow> map_sum id (\<lambda>y. acc @ [y]) (jv_convert d n e)) [] (enumerate 0 xs))
                       | JObj kvs \<Rightarrow>
                           (case foldM (\<lambda>acc (i, e). case elem_name name i of
                                 Inl err \<Rightarrow> Inl (JErrRaised err)
                               | Inr n \<Rightarrow> map_sum id (\<lambda>y. acc @ [y]) (jv_convert d n e)) [] (enumerate 0 (map (JStr \<circ> fst) kvs)) of
                              Inl e \<Rightarrow> Inl e
                            | Inr ys \<Rightarrow> py_dict ys)
                       | JStr _ \<Rightarrow> Inr (JStr ''<generator object>'')
                       | _ \<Rightarrow> Inr v)) of
             Inl e \<Rightarrow> Inl e
           | Inr v' \<Rightarrow> (case c of None \<Rightarrow> Inr v' | Some f \<Rightarrow> map_sum JErrRaised id (f v'))))"
| "jt_convert (JsonObject fds ext) c dflt name v =
     (case v of
        JObj kvs \<Rightarrow>
          (case (case fds of
                   None \<Rightarrow> (case ext of
                              None \<Rightarrow> Inr kvs
                            | Some x \<Rightarrow> foldM (\<lambda>m k. map_sum id (\<lambda>y. od_set k y m)
                                         (jv_convert x (name @ ''.'' @ k) (json_get (JObj m) k))) kvs (map fst kvs))
                 | Some fs \<Rightarrow>
                     (case foldM (\<lambda>m (k, f). map_sum id (\<lambda>y. od_set k y m)
                                   (jv_convert f (name @ ''.'' @ k) (json_get (JObj m) k))) kvs fs of
                        Inl e \<Rightarrow> Inl e
                      | Inr m \<Rightarrow> (case ext of
                                   None \<Rightarrow> Inr m
                                 | Some x \<Rightarrow> foldM (\<lambda>m' k. if k \<in> set (map fst fs) then Inr m'
                                                else map_sum id (\<lambda>y. od_set k y m')
                                                  (jv_convert x (name @ ''.'' @ k) (json_get (JObj m') k))) m (map fst m)))) of
             Inl e \<Rightarrow> Inl e
           | Inr m \<Rightarrow> apply_converter c name (JObj m))
      | _ \<Rightarrow> Inl (JErrType (type_name (JsonObject fds ext)) name v))"
| "jt_convert t c dflt name v =
     (case raise_first (jt_validate t name v) of Inl e \<Rightarrow> Inl e | Inr _ \<Rightarrow> apply_converter c name v)"
| "jv_convert (JsonValue t c d r) name v =
     (if v = JNull then (if r then Inl (JErrRequired (type_name t) name) else Inr d) else jt_convert t c d name v)"
  by pat_completeness auto
termination
proof (relation "measure (\<lambda>x. case x of Inl (t, _, _, _, _) \<Rightarrow> size t | Inr (d, _, _) \<Rightarrow> size d)", goal_cases)
  case 1
  show ?case by simp
qed (auto dest!: size_list_estimation' [where f = "size_prod (\<lambda>_. 0) size", OF _ order_refl])


section \<open>JsonSchema.convert_from\<close>

text \<open>\<open>JsonSchema._onerror\<close> raises \<open>ValueError((string(arg) for arg in args))\<close>: the
  exception's only argument is a generator object, whose text is its \<open>repr\<close>.\<close>

fun onerror_raise :: "jerr \<Rightarrow> py_error" where
  "onerror_raise (JErrRaised e) = e"
| "onerror_raise _ = ValueError ''<generator object>''"

definition schema_convert_from :: "string \<Rightarrow> json_value \<Rightarrow> json \<Rightarrow> py_error + json" where
  "schema_convert_from name d v =
     (case raise_first (jv_validate d name v) of
        Inl e \<Rightarrow> Inl (onerror_raise e)
      | Inr _ \<Rightarrow> map_sum onerror_raise id (jv_convert d name v))"

section \<open>Properties\<close>

text \<open>Every fact about the results of \<open>validate\<close> that the leaves satisfy and that
  \<open>error_count == 0\<close> over children preserves holds of every result.\<close>

lemma validate_prop:
  assumes all: "\<And>rs. (\<And>r. r \<in> set rs \<Longrightarrow> Q r) \<Longrightarrow> Q (all_ok rs)"
    and te: "\<And>t n v. Q (type_error t n v)" and ok: "Q (Inr True, [])" and raised: "Q (Inl not_iterable, [])"
    and ill: "\<And>n k. Q (Inr False, [JErrIllegalField n k])" and req: "\<And>tn n. Q (Inr False, [JErrRequired tn n])"
  shows "Q (jt_validate t name v)" "Q (jv_validate d name v)"
proof (induction t name v and d name v rule: jt_validate_jv_validate.induct)
  case (1 d name v)
  show ?case
  proof (cases "is_instance (JsonArray d) v")
    case inst: True
    show ?thesis
    proof (cases "py_iter v")
      case None
      with inst show ?thesis by (simp add: raised)
    next
      case (Some es)
      have "Q (jv_validate d (name @ ''['' @ digit_str i @ '']'') e)" if "(i, e) \<in> set (enumerate 0 es)" for i e
        using "1.IH" [OF _ Some that refl] inst by simp
      with inst Some show ?thesis by (auto intro!: all)
    qed
  qed (simp add: te)
next
  case (3 x name v)
  then show ?case by (auto intro!: all simp: te)
next
  case (4 fds name v)
  have "Q (jv_validate f (name @ ''.'' @ k) (json_get v k))"
    if "is_instance (JsonObject (Some fds) None) v" "(k, f) \<in> set fds" for k f
    using "4.IH" [OF _ that(2) refl] that(1) by simp
  then show ?case by (auto intro!: all simp: te ill)
next
  case (5 fds x name v)
  have "Q (jv_validate f (name @ ''.'' @ k) (json_get v k))"
    if "is_instance (JsonObject (Some fds) (Some x)) v" "(k, f) \<in> set fds" for k f
    using "5.IH"(1) [OF _ that(2) refl] that(1) by simp
  with "5.IH"(2) show ?case by (auto intro!: all simp: te)
qed (simp_all add: te ok req)

definition agrees :: "vresult \<Rightarrow> bool" where
  "agrees r \<longleftrightarrow> (case r of (Inr b, ms) \<Rightarrow> b = (ms = []) | (Inl e, _) \<Rightarrow> e = not_iterable)"

lemma all_ok_agrees: "(\<And>r. r \<in> set rs \<Longrightarrow> agrees r) \<Longrightarrow> agrees (all_ok rs)"
proof (induction rs rule: all_ok.induct)
  case (3 b ms rs)
  have hd: "b = (ms = [])" using "3.prems" [of "(Inr b, ms)"] by (simp add: agrees_def)
  have tl: "agrees (all_ok rs)" using 3 by simp
  obtain r ms' where ar: "all_ok rs = (r, ms')" by fastforce
  show ?case using hd tl ar by (cases r) (auto simp: agrees_def)
next
  case (2 e ms rs)
  then show ?case using "2.prems" [of "(Inl e, ms)"] by (simp add: agrees_def)
qed (auto simp: agrees_def)

text \<open>C17: \<open>validate\<close> returns \<open>True\<close> exactly when it passed no message to \<open>onerror\<close>: every
  failure is reported and every report is a failure; the only exception it raises is the
  \<open>TypeError\<close> of \<open>enumerate\<close> on a value that is not iterable.\<close>

theorem validate_reports:
  "(case jt_validate t name v of (Inr b, ms) \<Rightarrow> b = (ms = []) | (Inl e, _) \<Rightarrow> e = not_iterable)
   \<and> (case jv_validate d name v of (Inr b, ms) \<Rightarrow> b = (ms = []) | (Inl e, _) \<Rightarrow> e = not_iterable)"
  using validate_prop [of agrees, OF all_ok_agrees] by (simp add: agrees_def type_error_def)


fun not_raised :: "jerr \<Rightarrow> bool" where
  "not_raised (JErrRaised _) = False"
| "not_raised _ = True"

lemma all_ok_messages: "set (snd (all_ok rs)) \<subseteq> (\<Union>r \<in> set rs. set (snd r))"
  by (induction rs rule: all_ok.induct) (auto split: prod.splits)

lemma validate_not_raised: "\<forall>e \<in> set (snd (jv_validate d name v)). not_raised e"
  using validate_prop(2) [of "\<lambda>r. \<forall>e \<in> set (snd r). not_raised e"]
  by (fastforce simp: type_error_def dest: subsetD [OF all_ok_messages])

text \<open>C18 (finding): when validation fails, \<open>JsonSchema.convert_from\<close> raises a
  \<open>ValueError\<close> whose argument is a generator object, so the message naming the field
  and the problem is lost.\<close>

theorem schema_error_message_lost:
  "snd (jv_validate d name v) \<noteq> [] \<Longrightarrow> schema_convert_from name d v = Inl (ValueError ''<generator object>'')"
proof -
  assume ne: "snd (jv_validate d name v) \<noteq> []"
  then obtain e es where es: "snd (jv_validate d name v) = e # es" by (cases "snd (jv_validate d name v)") auto
  with validate_not_raised [of d name v] have "not_raised e" by simp
  then have "onerror_raise e = ValueError ''<generator object>''" by (cases e) simp_all
  with es show ?thesis by (simp add: schema_convert_from_def raise_first_def)
qed

text \<open>An optional array of strings, as the schemas of the program declare them.\<close>

definition str_array :: json_value where
  "str_array = JsonValue (JsonArray (JsonValue JsonString None JNull False)) None JNull False"

theorem schema_error_message_lost_witness:
  "snd (jv_validate str_array ''doc'' (JNum 1)) \<noteq> []
   \<and> schema_convert_from ''doc'' str_array (JNum 1) = Inl (ValueError ''<generator object>'')"
proof -
  have "snd (jv_validate str_array ''doc'' (JNum 1)) \<noteq> []"
    by (simp add: str_array_def type_error_def)
  with schema_error_message_lost show ?thesis by blast
qed

section \<open>Arrays of strings\<close>

lemma all_ok_true [simp]: "all_ok (map (\<lambda>_. (Inr True, [])) xs) = (Inr True, [])"
  by (induction xs) simp_all

lemma validate_str_elems:
  "map (\<lambda>(i, e). jv_validate (JsonValue JsonString c d r) (name @ CHR ''['' # digit_str i @ '']'') e) (enumerate k (map JStr ws)) =
   map (\<lambda>_. (Inr True, [])) ws"
  by (induction ws arbitrary: k) simp_all

lemma validate_str_iter:
  "py_iter v = Some (map JStr ws) \<Longrightarrow> jt_validate (JsonArray (JsonValue JsonString c d r)) name v = (Inr True, [])"
  by (simp add: validate_str_elems del: all_ok.simps)

lemma validate_str_array [simp]:
  "jt_validate (JsonArray (JsonValue JsonString c d r)) name (JArr (map JStr ws)) = (Inr True, [])"
  by (rule validate_str_iter) simp

lemma py_format_Cons_plain:
  "CHR ''{'' \<noteq> c \<Longrightarrow> CHR ''}'' \<noteq> c \<Longrightarrow> py_format (c # s) a = map_sum id (Cons c) (py_format s a)"
  by simp

lemma py_format_plain_prefix:
  "CHR ''{'' \<notin> set p \<Longrightarrow> CHR ''}'' \<notin> set p \<Longrightarrow> py_format (p @ s) a = map_sum id ((@) p) (py_format s a)"
proof (induction p)
  case Nil
  show ?case by (cases "py_format s a") simp_all
next
  case (Cons c p)
  then show ?case
    by (cases "py_format s a") (simp_all add: py_format_Cons_plain del: py_format.simps)
qed

lemma py_format_plain:
  "CHR ''{'' \<notin> set s \<Longrightarrow> CHR ''}'' \<notin> set s \<Longrightarrow> py_format (s @ ''[{0}]'') a = Inr (s @ ''['' @ a @ '']'')"
  by (simp add: py_format_plain_prefix)

lemma elem_name_plain:
  "CHR ''{'' \<notin> set name \<Longrightarrow> CHR ''}'' \<notin> set name \<Longrightarrow> elem_name name i = Inr (name @ ''['' @ digit_str i @ '']'')"
  by (simp add: elem_name_def py_format_plain)

lemma convert_str_elems:
  assumes "CHR ''{'' \<notin> set name" "CHR ''}'' \<notin> set name"
  shows "foldM (\<lambda>acc (i, e). case elem_name name i of
                 Inl err \<Rightarrow> Inl (JErrRaised err)
               | Inr n \<Rightarrow> map_sum id (\<lambda>y. acc @ [y]) (jv_convert (JsonValue JsonString None JNull False) n e))
            acc (enumerate k (map JStr ws)) = Inr (acc @ map JStr ws)"
  using assms
  by (induction ws arbitrary: k acc)
     (simp_all add: elem_name_plain raise_first_def apply_converter_def)

lemma convert_str_array:
  assumes "CHR ''{'' \<notin> set name" "CHR ''}'' \<notin> set name"
  shows "jt_convert (JsonArray (JsonValue JsonString None JNull False)) c dflt name (JArr (map JStr ws)) =
    (case c of None \<Rightarrow> Inr (JArr (map JStr ws)) | Some f \<Rightarrow> map_sum JErrRaised id (f (JArr (map JStr ws))))"
  using convert_str_elems [OF assms, of "[]" 0 ws]
  by (simp add: raise_first_def del: jt_validate.simps)

section \<open>Objects where arrays are expected, and braces in names\<close>

lemma dict_item_str:
  "dict_item (JStr k) = (if length k = 2 then Inr ([hd k], JStr [last k])
     else Inl (ValueError ''dictionary update sequence element has the wrong length''))"
proof (cases k)
  case (Cons a t)
  then show ?thesis by (cases t; cases "tl t") auto
qed simp

lemma py_dict_strs:
  "foldM (\<lambda>m x. case dict_item x of Inl e \<Rightarrow> Inl e | Inr (k, v) \<Rightarrow> Inr (od_set k v m)) acc (map JStr ks) =
   (if list_all (\<lambda>k. length k = 2) ks then Inr (foldl (\<lambda>m k. od_set [hd k] (JStr [last k]) m) acc ks)
    else Inl (ValueError ''dictionary update sequence element has the wrong length''))"
  by (induction ks arbitrary: acc) (simp_all add: dict_item_str)

text \<open>C19 (finding): \<open>JsonArray.is_instance\<close> accepts every iterable, so any object where
  an array of strings is expected passes validation (its keys are the elements), and
  conversion rebuilds it with \<open>type(value)(...)\<close>, i.e. \<open>dict\<close> of the keys: every
  two-character key \<open>'ab'\<close> becomes the entry \<open>'a': 'b'\<close>, the values are dropped, and a
  key of another length raises \<open>ValueError\<close>.\<close>

theorem array_accepts_object:
  "CHR ''{'' \<notin> set name \<Longrightarrow> CHR ''}'' \<notin> set name \<Longrightarrow>
   jv_validate str_array name (JObj kvs) = (Inr True, [])
   \<and> schema_convert_from name str_array (JObj kvs) =
       (if list_all (\<lambda>k. length k = 2) (map fst kvs)
        then Inr (JObj (foldl (\<lambda>m k. od_set [hd k] (JStr [last k]) m) [] (map fst kvs)))
        else Inl (ValueError ''dictionary update sequence element has the wrong length''))"
proof -
  assume b1: "CHR ''{'' \<notin> set name" and b2: "CHR ''}'' \<notin> set name"
  have it: "py_iter (JObj kvs) = Some (map JStr (map fst kvs))" by simp
  have v: "jv_validate str_array name (JObj kvs) = (Inr True, [])"
    using validate_str_iter [OF it] by (simp add: str_array_def del: jt_validate.simps)
  have c: "foldM (\<lambda>acc (i, e). case elem_name name i of
                 Inl err \<Rightarrow> Inl (JErrRaised err)
               | Inr n \<Rightarrow> map_sum id (\<lambda>y. acc @ [y]) (jv_convert (JsonValue JsonString None JNull False) n e))
            [] (enumerate 0 (map (JStr \<circ> fst) kvs)) = Inr (map JStr (map fst kvs))"
    using convert_str_elems [OF b1 b2, of "[]" 0 "map fst kvs"] by simp
  have "jv_convert str_array name (JObj kvs) =
          (case foldM (\<lambda>m x. case dict_item x of Inl e \<Rightarrow> Inl e | Inr (k, v) \<Rightarrow> Inr (od_set k v m)) [] (map JStr (map fst kvs)) of
             Inl e \<Rightarrow> Inl (JErrRaised e) | Inr m \<Rightarrow> Inr (JObj m))"
    using v c by (simp add: str_array_def raise_first_def py_dict_def del: jt_validate.simps split: sum.split)
  with v show ?thesis
    using py_dict_strs [of "[]" "map fst kvs"] by (simp add: schema_convert_from_def raise_first_def)
qed

theorem array_accepts_object_witness:
  "jv_validate str_array ''doc'' (JObj [(''ab'', JNum 1)]) = (Inr True, [])
   \<and> schema_convert_from ''doc'' str_array (JObj [(''ab'', JNum 1)]) = Inr (JObj [(''a'', JStr ''b'')])"
  using array_accepts_object [of "''doc''" "[(''ab'', JNum 1)]"] by simp

text \<open>A dictionary of optional arrays of strings, keyed by names taken from the document.\<close>

definition str_array_map :: json_value where
  "str_array_map = JsonValue (JsonObject None (Some str_array)) None JNull False"

lemma py_format_brace_field:
  assumes "CHR ''{'' \<notin> set f" "CHR ''}'' \<notin> set f" "f \<noteq> []" "\<not> list_all (\<lambda>x. x \<in> set ''0123456789'') f"
  shows "py_format (CHR ''{'' # f @ CHR ''}'' # rest) a = Inl KeyError"
proof -
  obtain d f' where f: "f = d # f'" using assms(3) by (cases f) auto
  have tw: "takeWhile (\<lambda>x. x \<noteq> CHR ''}'') (f' @ CHR ''}'' # rest) = f'"
    using assms(2) f by (induction f' arbitrary: f) auto
  have d: "d \<noteq> CHR ''{''" "d \<noteq> CHR ''}''" using assms(1,2) f by auto
  have "d # f' \<noteq> ''0''" using assms(4) f by auto
  then show ?thesis using assms(4) f tw d by (cases "d = CHR ''0'' \<and> f' = []") auto
qed

lemma elem_name_brace:
  assumes "CHR ''{'' \<notin> set p" "CHR ''}'' \<notin> set p"
    and "CHR ''{'' \<notin> set f" "CHR ''}'' \<notin> set f" "f \<noteq> []" "\<not> list_all (\<lambda>x. x \<in> set ''0123456789'') f"
  shows "elem_name (p @ ''{'' @ f @ ''}'' @ c) i = Inl KeyError"
  using py_format_plain_prefix [OF assms(1,2), of "CHR ''{'' # f @ CHR ''}'' # c @ ''[{0}]''"]
    py_format_brace_field [OF assms(3-6), of "c @ ''[{0}]''"]
  by (simp add: elem_name_def)



end
