(* ===== verification/SpecSchema.thy ===== *)
theory SpecSchema
  imports DeploymentSpec JsonData
begin

text \<open>
  \<open>AppDeploymentSpecification.schema\<close> (src/slim/app/_deployment.py, lines 992--1055) as
  a schema of JsonData, with the four converters acting on decoded values, and its
  refinement of the typed model \<open>decode_spec\<close> of DeploymentSpec: on a document of the
  expected shape, the schema succeeds exactly when \<open>decode_spec\<close> does and builds the
  same specification.
\<close>

section \<open>The converters on decoded JSON\<close>

fun json_strs :: "json list \<Rightarrow> string list option" where
  "json_strs [] = Some []"
| "json_strs (JStr s # xs) = map_option (Cons s) (json_strs xs)"
| "json_strs (_ # xs) = None"

definition conv_name_json :: "json \<Rightarrow> py_error + json" where
  "conv_name_json v =
     (case v of
        JStr s \<Rightarrow> if safe_filename_match s then Inr v
                 else Inl (ValueError ''Illegal characters in deployment specification.name'')
      | _ \<Rightarrow> Inl (TypeError ''expected string or bytes-like object''))"

definition conv_workload_json :: "json \<Rightarrow> py_error + json" where
  "conv_workload_json v =
     (case json_strs (json_iter v) of
        Some ss \<Rightarrow> if set ss \<subseteq> {''forwarder'', ''indexer'', ''searchHead''} then Inr (JSet (set ss))
                  else Inl (ValueError ''Deployment specification.workload is invalid'')
      | None \<Rightarrow> Inl (ValueError ''Deployment specification.workload is invalid''))"

definition conv_input_groups_json :: "json \<Rightarrow> py_error + json" where
  "conv_input_groups_json v =
     (case json_strs (json_iter v) of
        Some ss \<Rightarrow> Inr (JSet (if ss = [] then no_input_groups
                             else if ''*'' \<in> set ss then all_input_groups else set ss))
      | None \<Rightarrow> Inl (TypeError ''unhashable type''))"

definition py_in :: "string \<Rightarrow> json \<Rightarrow> bool" where
  "py_in x v = (case v of JSet w \<Rightarrow> x \<in> w | JArr xs \<Rightarrow> JStr x \<in> set xs | JObj m \<Rightarrow> x \<in> fst ` set m | _ \<Rightarrow> False)"

definition conv_spec_json :: "json \<Rightarrow> py_error + json" where
  "conv_spec_json v =
     (case v of
        JObj m \<Rightarrow>
          (if ''workload'' \<notin> fst ` set m then Inl KeyError
           else if json_get v ''inputGroups'' = JNull then
             (if py_in ''forwarder'' (json_get v ''workload'')
              then Inr (JObj (od_set ''inputGroups'' (JSet all_input_groups) m)) else Inr v)
           else if \<not> py_in ''forwarder'' (json_get v ''workload'')
           then Inl (ValueError ''Deployment specification includes inputGroups, but does not include the forwarder workload'')
           else Inr v)
      | _ \<Rightarrow> Inl (TypeError ''not a dictionary''))"

definition deployment_schema :: json_value where
  "deployment_schema =
     JsonValue (JsonObject (Some
       [(''name'', JsonValue JsonString (Some conv_name_json) JNull True),
        (''workload'', JsonValue (JsonArray (JsonValue JsonString None JNull False)) (Some conv_workload_json) JNull True),
        (''inputGroups'', JsonValue (JsonArray (JsonValue JsonString None JNull False)) (Some conv_input_groups_json) JNull False)])
       None) (Some conv_spec_json) JNull True"

section \<open>Refinement\<close>

definition spec_doc :: "string \<Rightarrow> string list \<Rightarrow> string list option \<Rightarrow> json" where
  "spec_doc n ws igs = JObj ([(''name'', JStr n), (''workload'', JArr (map JStr ws))] @
     (case igs of None \<Rightarrow> [] | Some gs \<Rightarrow> [(''inputGroups'', JArr (map JStr gs))]))"

definition spec_json :: "deployment_spec \<Rightarrow> json" where
  "spec_json s = JObj [(''name'', JStr (ds_name s)), (''workload'', JSet (ds_workload s)),
     (''inputGroups'', case ds_input_groups s of None \<Rightarrow> JNull | Some g \<Rightarrow> JSet g)]"

lemma json_strs_map [simp]: "json_strs (map JStr ws) = Some ws"
  by (induction ws) auto

lemma validate_spec_doc:
  "jv_validate deployment_schema ''deployment specification'' (spec_doc n ws igs) = (Inr True, [])"
  by (cases igs) (simp_all add: deployment_schema_def spec_doc_def json_get_def extra_keys_def json_keys_def
      del: jt_validate.simps(1))


definition name_field :: json_value where
  "name_field = JsonValue JsonString (Some conv_name_json) JNull True"

definition workload_field :: json_value where
  "workload_field = JsonValue (JsonArray (JsonValue JsonString None JNull False)) (Some conv_workload_json) JNull True"

definition input_groups_field :: json_value where
  "input_groups_field = JsonValue (JsonArray (JsonValue JsonString None JNull False)) (Some conv_input_groups_json) JNull False"

lemma deployment_schema_fields:
  "deployment_schema = JsonValue (JsonObject (Some [(''name'', name_field), (''workload'', workload_field),
     (''inputGroups'', input_groups_field)]) None) (Some conv_spec_json) JNull True"
  by (simp add: deployment_schema_def name_field_def workload_field_def input_groups_field_def)

lemma convert_name_field:
  "jv_convert name_field nm (JStr n) =
     (if safe_filename_match n then Inr (JStr n)
      else Inl (JErrConvert nm (ValueError ''Illegal characters in deployment specification.name'')))"
  by (simp add: name_field_def raise_first_def apply_converter_def conv_name_json_def)

lemma convert_workload_field:
  "CHR ''{'' \<notin> set nm \<Longrightarrow> CHR ''}'' \<notin> set nm \<Longrightarrow>
   jv_convert workload_field nm (JArr (map JStr ws)) = map_sum JErrRaised id (conv_workload_json (JArr (map JStr ws)))"
  by (simp add: workload_field_def convert_str_array del: jt_convert.simps)

lemma convert_input_groups_field:
  "jv_convert input_groups_field nm JNull = Inr JNull"
  "CHR ''{'' \<notin> set nm \<Longrightarrow> CHR ''}'' \<notin> set nm \<Longrightarrow>
   jv_convert input_groups_field nm (JArr (map JStr gs)) = map_sum JErrRaised id (conv_input_groups_json (JArr (map JStr gs)))"
  by (simp_all add: input_groups_field_def convert_str_array del: jt_convert.simps)


lemma convert_spec_doc_unfold:
  "jv_convert deployment_schema ''deployment specification'' (spec_doc n ws igs) =
   (case foldM (\<lambda>m (k, f). map_sum id (\<lambda>y. od_set k y m)
                 (jv_convert f (''deployment specification'' @ ''.'' @ k) (json_get (JObj m) k)))
          (case spec_doc n ws igs of JObj kvs \<Rightarrow> kvs | _ \<Rightarrow> [])
          [(''name'', name_field), (''workload'', workload_field), (''inputGroups'', input_groups_field)] of
      Inl e \<Rightarrow> Inl e
    | Inr m \<Rightarrow> apply_converter (Some conv_spec_json) ''deployment specification'' (JObj m))"
  unfolding deployment_schema_fields
  by (subst jv_convert.simps) (simp add: spec_doc_def del: jv_convert.simps foldM.simps cong: sum.case_cong)


text \<open>C21: on a document with a string name, an array of string workloads and optionally
  an array of string input groups, the schema machinery of json_data.py with the four
  converters of \<open>AppDeploymentSpecification\<close> succeeds exactly when \<open>decode_spec\<close> does,
  and yields the same specification.\<close>

theorem deployment_schema_refines:
  "map_sum (\<lambda>_. ()) id (schema_convert_from ''deployment specification'' deployment_schema (spec_doc n ws igs)) =
   map_sum (\<lambda>_. ()) spec_json (decode_spec n ws igs)"
  unfolding schema_convert_from_def validate_spec_doc convert_spec_doc_unfold
  by (cases igs; cases "safe_filename_match n"; cases "set ws \<subseteq> {''forwarder'', ''indexer'', ''searchHead''}")
     (simp_all add: raise_first_def
        convert_name_field convert_workload_field convert_input_groups_field json_get_def
        decode_spec_def convert_safe_filename_def convert_workload_def convert_spec_def conv_workload_json_def
        conv_input_groups_json_def conv_spec_json_def apply_converter_def py_in_def json_iter_def spec_json_def
        convert_input_groups_def spec_doc_def
        del: jv_convert.simps jt_convert.simps)

end
