(* ===== verification/SpecPropagation.thy ===== *)
theory SpecPropagation
  imports DependencyGraph "HOL-Library.List_Lexorder" "HOL-Library.Char_ord"
begin

text \<open>
  \<open>AppDependencyGraph.get_deployment_specifications\<close> and the recursive
  \<open>_get_deployment_specifications\<close> (src/slim/app/_deployment.py, lines 182--199 and
  386--428): the specification given for the root is propagated to the dependencies,
  each receiving the input groups that the root's active input groups require of it,
  united with what another path already gave it.  The recursion has no visited set; it is
  modelled with fuel, \<open>None\<close> being a recursion that did not finish.  The loop over
  \<open>deployment_specification.inputGroups\<close> runs over a frozenset, whose iteration order
  Python does not fix; the model takes the sorted order, which does not change the
  requirements computed because \<open>union_of\<close> is commutative and associative (only which of
  several exceptions is raised first can depend on it).  The main results: the recursion
  finishes on every graph the constructor found acyclic, and dependencies that no input
  group requires receive NONE.
\<close>

section \<open>Propagation of a deployment specification\<close>

definition deps_of :: "graph_state \<Rightarrow> app_source \<Rightarrow> (dependency \<times> app_source) list" where
  "deps_of st a = (case map_of (gs_dependencies st) a of None \<Rightarrow> [] | Some l \<Rightarrow> l)"

definition ig_get :: "(app_source, string set) odict \<Rightarrow> app_source \<Rightarrow> string set" where
  "ig_get req s = (case map_of req s of None \<Rightarrow> no_input_groups | Some g \<Rightarrow> g)"

definition add_requirement ::
  "graph_state \<Rightarrow> app_source \<Rightarrow> (app_source, string set) odict \<Rightarrow> string \<times> string set \<Rightarrow>
   py_error + (app_source, string set) odict" where
  "add_requirement st a req ar =
     (case ar of (alias, requirement) \<Rightarrow>
       (case src_declared a of
          None \<Rightarrow> Inl (TypeError ''NoneType object is not subscriptable'')
        | Some decls \<Rightarrow> (case map_of decls alias of
          None \<Rightarrow> Inl KeyError
        | Some d \<Rightarrow> (case dep_package d of
            None \<Rightarrow> Inl KeyError
          | Some p \<Rightarrow> (case map_of (gs_repository st) p of
              None \<Rightarrow> Inl KeyError
            | Some s \<Rightarrow> (case map_of (gs_graph st) a of
                None \<Rightarrow> Inl KeyError
              | Some succs \<Rightarrow> if s \<notin> set succs then Inl AssertionError
                             else Inr (od_set s (union_of (ig_get req s) requirement) req)))))))"

definition gds_requirements ::
  "graph_state \<Rightarrow> app_source \<Rightarrow> deployment_spec \<Rightarrow> py_error + (app_source, string set) odict" where
  "gds_requirements st a spec =
     (case src_input_groups a of
        None \<Rightarrow> Inr []
      | Some igs \<Rightarrow> (case ds_input_groups spec of
          None \<Rightarrow> Inl (TypeError ''NoneType object is not iterable'')
        | Some names \<Rightarrow>
            foldM (\<lambda>req name. case map_of igs name of
                      None \<Rightarrow> Inr req
                    | Some g \<Rightarrow> (case ig_requires g of
                        RequiresAbsent \<Rightarrow> Inr req
                      | RequiresNone \<Rightarrow> Inl (TypeError ''NoneType object is not iterable'')
                      | Requires aliases \<Rightarrow> foldM (add_requirement st a) req aliases))
              [] (sorted_list_of_set names)))"

text \<open>The input groups a dependency receives: the requirements of the current app, united
  with what an earlier path already gave it.\<close>

definition dep_groups ::
  "(app_source, string set) odict \<Rightarrow> (app_source, deployment_spec) odict \<Rightarrow> app_source \<Rightarrow> py_error + string set" where
  "dep_groups req result s =
     (case map_of result s of
        None \<Rightarrow> Inr (ig_get req s)
      | Some r \<Rightarrow> (case ds_input_groups r of
          None \<Rightarrow> Inl (TypeError ''NoneType object is not iterable'')
        | Some g \<Rightarrow> Inr (union_of g (ig_get req s))))"

definition dep_spec :: "deployment_spec \<Rightarrow> string set \<Rightarrow> deployment_spec" where
  "dep_spec spec ig = \<lparr>ds_name = ds_name spec, ds_workload = ds_workload spec, ds_input_groups = Some ig\<rparr>"

text \<open>\<open>_get_deployment_specifications\<close> and its loop over \<open>app_source.dependencies\<close>.  The
  method recurses without a visited set; the fuel bounds the depth of the recursion.\<close>

fun gds_node ::
  "nat \<Rightarrow> graph_state \<Rightarrow> app_source \<Rightarrow> deployment_spec \<Rightarrow> (app_source, deployment_spec) odict \<Rightarrow>
   (py_error + (app_source, deployment_spec) odict) option"
and gds_deps ::
  "nat \<Rightarrow> graph_state \<Rightarrow> deployment_spec \<Rightarrow> (app_source, string set) odict \<Rightarrow> (dependency \<times> app_source) list \<Rightarrow>
   (app_source, deployment_spec) odict \<Rightarrow> (py_error + (app_source, deployment_spec) odict) option" where
  "gds_node 0 st a spec result = None"
| "gds_node (Suc n) st a spec result =
     (case gds_requirements st a spec of
        Inl e \<Rightarrow> Some (Inl e)
      | Inr req \<Rightarrow> gds_deps n st spec req (deps_of st a) (od_set a spec result))"
| "gds_deps n st spec req [] result = Some (Inr result)"
| "gds_deps n st spec req ((d, s) # rest) result =
     (case dep_groups req result s of
        Inl e \<Rightarrow> Some (Inl e)
      | Inr ig \<Rightarrow>
          (case gds_node n st s (dep_spec spec ig) result of
             None \<Rightarrow> None
           | Some (Inl e) \<Rightarrow> Some (Inl e)
           | Some (Inr result') \<Rightarrow> gds_deps n st spec req rest result'))"

definition get_deployment_specifications_graph ::
  "nat \<Rightarrow> graph_state \<Rightarrow> app_source \<Rightarrow> deployment_spec \<Rightarrow> (py_error + (app_source, deployment_spec) odict) option" where
  "get_deployment_specifications_graph n st root spec =
     (if ds_input_groups spec = None \<or> ds_input_groups spec = Some all_input_groups
      then Some (Inr (map (\<lambda>s. (s, spec)) (od_keys (gs_graph st))))
      else gds_node n st root spec [])"


section \<open>Termination on acyclic graphs\<close>

lemma gds_mono:
  "gds_node n st a spec r = Some x \<Longrightarrow> n \<le> m \<Longrightarrow> gds_node m st a spec r = Some x"
  "gds_deps n st spec req ds r = Some x \<Longrightarrow> n \<le> m \<Longrightarrow> gds_deps m st spec req ds r = Some x"
proof (induction n st a spec r and n st spec req ds r arbitrary: m x and m x rule: gds_node_gds_deps.induct)
  case (2 n st a spec result)
  obtain m' where m: "m = Suc m'" and le: "n \<le> m'" using "2.prems"(2) by (cases m) auto
  show ?case
  proof (cases "gds_requirements st a spec")
    case (Inl e)
    with "2.prems"(1) m show ?thesis by simp
  next
    case (Inr req)
    with "2.prems"(1) have "gds_deps n st spec req (deps_of st a) (od_set a spec result) = Some x" by simp
    from "2.IH" [OF Inr this le] Inr m show ?thesis by simp
  qed
next
  case (4 n st spec req d s rest result)
  show ?case
  proof (cases "dep_groups req result s")
    case (Inl e)
    with "4.prems"(1) show ?thesis by simp
  next
    case (Inr ig)
    show ?thesis
    proof (cases "gds_node n st s (dep_spec spec ig) result")
      case None
      with "4.prems"(1) Inr show ?thesis by simp
    next
      case (Some y)
      have y: "gds_node m st s (dep_spec spec ig) result = Some y"
        using "4.IH"(1) [OF Inr Some "4.prems"(2)] .
      show ?thesis
      proof (cases y)
        case (Inl e)
        with "4.prems"(1) Inr Some y show ?thesis by auto
      next
        case (Inr r')
        with "4.prems"(1) \<open>dep_groups req result s = Inr ig\<close> Some
        have "gds_deps n st spec req rest r' = Some x" by simp
        from "4.IH"(2) [OF \<open>dep_groups req result s = Inr ig\<close> Some Inr this "4.prems"(2)]
        show ?thesis using \<open>dep_groups req result s = Inr ig\<close> y Inr by simp
      qed
    qed
  qed
qed simp_all

definition dep_edges :: "graph_state \<Rightarrow> (app_source \<times> app_source) set" where
  "dep_edges st = {(a, s). s \<in> snd ` set (deps_of st a)}"

lemma finite_dep_edges: "finite (dep_edges st)"
proof (rule finite_subset)
  show "dep_edges st \<subseteq> fst ` set (gs_dependencies st) \<times> (\<Union>l \<in> snd ` set (gs_dependencies st). snd ` set l)"
  proof
    fix e assume "e \<in> dep_edges st"
    then obtain a s where e: "e = (a, s)" and s: "s \<in> snd ` set (deps_of st a)"
      by (auto simp: dep_edges_def)
    then obtain l where l: "map_of (gs_dependencies st) a = Some l" "s \<in> snd ` set l"
      by (cases "map_of (gs_dependencies st) a") (simp_all add: deps_of_def)
    from l(1) have "(a, l) \<in> set (gs_dependencies st)" by (rule map_of_SomeD)
    with l(2) e show "e \<in> fst ` set (gs_dependencies st) \<times> (\<Union>l \<in> snd ` set (gs_dependencies st). snd ` set l)"
      by (force intro: rev_image_eqI)
  qed
qed simp

lemma gds_deps_returns:
  "(\<And>d s. (d, s) \<in> set ds \<Longrightarrow> \<forall>spec r. \<exists>n x. gds_node n st s spec r = Some x) \<Longrightarrow>
   \<exists>n x. gds_deps n st spec req ds result = Some x"
proof (induction ds arbitrary: result)
  case Nil
  then show ?case by auto
next
  case (Cons p ds)
  obtain d s where p: "p = (d, s)" by (cases p)
  show ?case
  proof (cases "dep_groups req result s")
    case (Inl e)
    with p show ?thesis by (intro exI [of _ 0]) simp
  next
    case (Inr ig)
    from Cons.prems [of d s] p have "\<forall>spec r. \<exists>n x. gds_node n st s spec r = Some x" by simp
    then obtain n1 x1 where r1: "gds_node n1 st s (dep_spec spec ig) result = Some x1" by blast
    show ?thesis
    proof (cases x1)
      case (Inl e)
      with r1 Inr p show ?thesis by (intro exI [of _ n1]) simp
    next
      case x1: (Inr result')
      have "\<forall>spec r. \<exists>n x. gds_node n st s' spec r = Some x" if "(d', s') \<in> set ds" for d' s'
        using Cons.prems [of d' s'] that by simp
      then obtain n2 x2 where r2: "gds_deps n2 st spec req ds result' = Some x2"
        using Cons.IH by blast
      have "gds_node (max n1 n2) st s (dep_spec spec ig) result = Some x1"
        using gds_mono(1) [OF r1] by simp
      moreover have "gds_deps (max n1 n2) st spec req ds result' = Some x2"
        using gds_mono(2) [OF r2] by simp
      ultimately have "gds_deps (max n1 n2) st spec req ((d, s) # ds) result = Some x2"
        using x1 Inr by simp
      with p show ?thesis by blast
    qed
  qed
qed

lemma gds_node_returns:
  assumes "acyclic (dep_edges st)"
  shows "\<exists>n x. gds_node n st a spec result = Some x"
proof -
  have wf: "wf ((dep_edges st)\<inverse>)"
    using finite_dep_edges assms by (rule finite_acyclic_wf_converse)
  have "\<forall>spec result. \<exists>n x. gds_node n st a spec result = Some x"
  proof (induction a rule: wf_induct [OF wf])
    case (1 a)
    show ?case
    proof (intro allI)
      fix spec result
      show "\<exists>n x. gds_node n st a spec result = Some x"
      proof (cases "gds_requirements st a spec")
        case (Inl e)
        then show ?thesis by (intro exI [of _ 1]) simp
      next
        case (Inr req)
        have "\<forall>spec r. \<exists>n x. gds_node n st s spec r = Some x" if "(d, s) \<in> set (deps_of st a)" for d s
          using 1 that by (force simp: dep_edges_def)
        then obtain n x where "gds_deps n st spec req (deps_of st a) (od_set a spec result) = Some x"
          using gds_deps_returns by blast
        with Inr show ?thesis by (intro exI [of _ "Suc n"]) simp
      qed
    qed
  qed
  then show ?thesis by blast
qed


section \<open>Dependencies no input group requires receive NONE\<close>

definition no_requirements :: "app_source \<Rightarrow> bool" where
  "no_requirements a \<longleftrightarrow> (case src_input_groups a of
     None \<Rightarrow> True
   | Some igs \<Rightarrow> list_all (\<lambda>(_, g). case ig_requires g of Requires rs \<Rightarrow> rs = [] | _ \<Rightarrow> True) igs)"

definition dep_targets :: "graph_state \<Rightarrow> app_source list" where
  "dep_targets st = concat (map (map snd \<circ> snd) (gs_dependencies st))"

definition none_below :: "app_source \<Rightarrow> (app_source, deployment_spec) odict \<Rightarrow> bool" where
  "none_below root r \<longleftrightarrow> (\<forall>(s, sp) \<in> set r. s \<noteq> root \<longrightarrow> ds_input_groups sp = Some no_input_groups)"

lemma foldM_const: "(\<And>x. x \<in> set xs \<Longrightarrow> f a x = Inr a) \<Longrightarrow> foldM f a xs = Inr a"
  by (induction xs) simp_all

lemma gds_requirements_none:
  assumes "no_requirements a" "gds_requirements st a spec = Inr req"
  shows "req = []"
proof (cases "src_input_groups a")
  case None
  with assms(2) show ?thesis by (simp add: gds_requirements_def)
next
  case (Some igs)
  show ?thesis
  proof (cases "ds_input_groups spec")
    case None
    with Some assms(2) show ?thesis by (simp add: gds_requirements_def)
  next
    case (Some names)
    let ?f = "\<lambda>req name. case map_of igs name of None \<Rightarrow> Inr req | Some g \<Rightarrow> (case ig_requires g of RequiresAbsent \<Rightarrow> Inr req
            | RequiresNone \<Rightarrow> Inl (TypeError ''NoneType object is not iterable'')
            | Requires aliases \<Rightarrow> foldM (add_requirement st a) req aliases)"
    have run: "foldM ?f [] (sorted_list_of_set names) = Inr req"
      using Some \<open>src_input_groups a = Some igs\<close> assms(2) by (simp add: gds_requirements_def)
    have step: "?f r name = Inr r' \<Longrightarrow> r = [] \<Longrightarrow> r' = []" for r name r'
    proof (cases "map_of igs name")
      case (Some g)
      then have "(name, g) \<in> set igs" by (rule map_of_SomeD)
      with assms(1) \<open>src_input_groups a = Some igs\<close>
      have "case ig_requires g of Requires rs \<Rightarrow> rs = [] | _ \<Rightarrow> True"
        by (auto simp: no_requirements_def list_all_iff)
      with Some show "?f r name = Inr r' \<Longrightarrow> r = [] \<Longrightarrow> r' = []" by (cases "ig_requires g") auto
    qed simp
    from run show ?thesis by (rule foldM_invariant [where P = "\<lambda>r. r = []"]) (simp, rule step)
  qed
qed

lemma deps_of_targets: "s \<in> snd ` set (deps_of st a) \<Longrightarrow> s \<in> set (dep_targets st)"
  by (cases "map_of (gs_dependencies st) a")
     (auto simp: deps_of_def dep_targets_def dest!: map_of_SomeD intro!: bexI [of _ "(a, _)"])

lemma none_below_od_set:
  "none_below root r \<Longrightarrow> a = root \<or> ds_input_groups spec = Some no_input_groups \<Longrightarrow> none_below root (od_set a spec r)"
  using set_od_set [of a spec r] by (auto simp: none_below_def)

lemma dep_groups_none:
  assumes "dep_groups [] result s = Inr ig" "none_below root result" "s \<noteq> root"
  shows "ig = no_input_groups"
proof (cases "map_of result s")
  case None
  with assms(1) show ?thesis by (simp add: dep_groups_def ig_get_def)
next
  case (Some r)
  then have "(s, r) \<in> set result" by (rule map_of_SomeD)
  with assms(2,3) have "ds_input_groups r = Some no_input_groups" by (auto simp: none_below_def)
  with Some assms(1) show ?thesis
    by (simp add: dep_groups_def ig_get_def union_of_def no_input_groups_def all_input_groups_def)
qed

lemma gds_none:
  "gds_node n st a spec result = Some (Inr r) \<Longrightarrow> (\<forall>s \<in> insert a (set (dep_targets st)). no_requirements s) \<Longrightarrow>
   none_below root result \<Longrightarrow> a = root \<or> ds_input_groups spec = Some no_input_groups \<Longrightarrow> none_below root r"
  "gds_deps n st spec req ds result = Some (Inr r) \<Longrightarrow> (\<forall>s \<in> snd ` set ds \<union> set (dep_targets st). no_requirements s) \<Longrightarrow>
   req = [] \<Longrightarrow> none_below root result \<Longrightarrow> none_below root r"
proof (induction n st a spec result and n st spec req ds result arbitrary: r and r rule: gds_node_gds_deps.induct)
  case (2 n st a spec result)
  then obtain req where req: "gds_requirements st a spec = Inr req" by (cases "gds_requirements st a spec") auto
  with "2.prems"(2) have "req = []" by (auto intro: gds_requirements_none)
  moreover have "\<forall>s \<in> snd ` set (deps_of st a) \<union> set (dep_targets st). no_requirements s"
    using "2.prems"(2) deps_of_targets by blast
  moreover have "none_below root (od_set a spec result)" using "2.prems"(3,4) by (rule none_below_od_set)
  moreover have "gds_deps n st spec req (deps_of st a) (od_set a spec result) = Some (Inr r)"
    using "2.prems"(1) req by simp
  ultimately show ?case using "2.IH" [OF req] by blast
next
  case (4 n st spec req d s rest result)
  from "4.prems"(1) obtain ig where ig: "dep_groups req result s = Inr ig"
    by (cases "dep_groups req result s") auto
  from "4.prems"(1) ig obtain r' where r': "gds_node n st s (dep_spec spec ig) result = Some (Inr r')"
    by (auto split: option.splits sum.splits)
  have spec': "s = root \<or> ds_input_groups (dep_spec spec ig) = Some no_input_groups"
    using dep_groups_none [of result s ig root] ig "4.prems"(3,4) by (auto simp: dep_spec_def)
  have "none_below root r'"
    using "4.IH"(1) [OF ig r'] "4.prems"(2,4) spec' by auto
  moreover have "gds_deps n st spec req rest r' = Some (Inr r)" using "4.prems"(1) ig r' by simp
  ultimately show ?case using "4.IH"(2) [OF ig r' refl] "4.prems"(2,3) by auto
qed simp_all

text \<open>C23: when no app on the way declares an input group that requires anything, and
  the specification names particular input groups, every dependency receives NONE
  (never ALL), as the design requires of dependencies no input group references.\<close>

theorem get_deployment_specifications_none:
  "get_deployment_specifications_graph n st root spec = Some (Inr r) \<Longrightarrow>
   ds_input_groups spec \<noteq> None \<Longrightarrow> ds_input_groups spec \<noteq> Some all_input_groups \<Longrightarrow>
   \<forall>s \<in> insert root (set (dep_targets st)). no_requirements s \<Longrightarrow>
   (s, sp) \<in> set r \<Longrightarrow> s \<noteq> root \<Longrightarrow> ds_input_groups sp = Some no_input_groups"
  using gds_none(1) [of n st root spec "[]" r root]
  by (auto simp: get_deployment_specifications_graph_def none_below_def)

theorem get_deployment_specifications_none_witness:
  "get_deployment_specifications_graph 3 (\<lparr>gs_graph = [(ex_src ''r'' [(''a'', ex_dep ''a'')], [ex_src ''a'' []]), (ex_src ''a'' [], [])], gs_dependents = [], gs_dependencies = [(ex_src ''r'' [(''a'', ex_dep ''a'')], [(ex_dep ''a'', ex_src ''a'' [])]), (ex_src ''a'' [], [])], gs_repository = [], gs_diag = diagnostics0\<rparr>) (ex_src ''r'' [(''a'', ex_dep ''a'')]) (\<lparr>ds_name = ''s'', ds_workload = {''forwarder''}, ds_input_groups = Some {''g''}\<rparr>) =
     Some (Inr [(ex_src ''r'' [(''a'', ex_dep ''a'')], \<lparr>ds_name = ''s'', ds_workload = {''forwarder''}, ds_input_groups = Some {''g''}\<rparr>), (ex_src ''a'' [], dep_spec (\<lparr>ds_name = ''s'', ds_workload = {''forwarder''}, ds_input_groups = Some {''g''}\<rparr>) {})])
   \<and> ds_input_groups (dep_spec (\<lparr>ds_name = ''s'', ds_workload = {''forwarder''}, ds_input_groups = Some {''g''}\<rparr>) {}) = Some no_input_groups"
proof -
  have run: "get_deployment_specifications_graph 3 (\<lparr>gs_graph = [(ex_src ''r'' [(''a'', ex_dep ''a'')], [ex_src ''a'' []]), (ex_src ''a'' [], [])], gs_dependents = [], gs_dependencies = [(ex_src ''r'' [(''a'', ex_dep ''a'')], [(ex_dep ''a'', ex_src ''a'' [])]), (ex_src ''a'' [], [])], gs_repository = [], gs_diag = diagnostics0\<rparr>) (ex_src ''r'' [(''a'', ex_dep ''a'')]) (\<lparr>ds_name = ''s'', ds_workload = {''forwarder''}, ds_input_groups = Some {''g''}\<rparr>) =
     Some (Inr [(ex_src ''r'' [(''a'', ex_dep ''a'')], \<lparr>ds_name = ''s'', ds_workload = {''forwarder''}, ds_input_groups = Some {''g''}\<rparr>), (ex_src ''a'' [], dep_spec (\<lparr>ds_name = ''s'', ds_workload = {''forwarder''}, ds_input_groups = Some {''g''}\<rparr>) {})])"
    by code_simp
  have hyp: "\<forall>s \<in> insert (ex_src ''r'' [(''a'', ex_dep ''a'')]) (set (dep_targets (\<lparr>gs_graph = [(ex_src ''r'' [(''a'', ex_dep ''a'')], [ex_src ''a'' []]), (ex_src ''a'' [], [])], gs_dependents = [], gs_dependencies = [(ex_src ''r'' [(''a'', ex_dep ''a'')], [(ex_dep ''a'', ex_src ''a'' [])]), (ex_src ''a'' [], [])], gs_repository = [], gs_diag = diagnostics0\<rparr>))). no_requirements s"
    by (simp add: dep_targets_def no_requirements_def ex_src_def)
  have "(ex_src ''a'' [], dep_spec (\<lparr>ds_name = ''s'', ds_workload = {''forwarder''}, ds_input_groups = Some {''g''}\<rparr>) {}) \<in> set [(ex_src ''r'' [(''a'', ex_dep ''a'')], \<lparr>ds_name = ''s'', ds_workload = {''forwarder''}, ds_input_groups = Some {''g''}\<rparr>), (ex_src ''a'' [], dep_spec (\<lparr>ds_name = ''s'', ds_workload = {''forwarder''}, ds_input_groups = Some {''g''}\<rparr>) {})]" by simp
  moreover have "ex_src ''a'' [] \<noteq> ex_src ''r'' [(''a'', ex_dep ''a'')]" by (simp add: ex_src_def)
  ultimately have "ds_input_groups (dep_spec (\<lparr>ds_name = ''s'', ds_workload = {''forwarder''}, ds_input_groups = Some {''g''}\<rparr>) {}) = Some no_input_groups"
    using get_deployment_specifications_none [OF run _ _ hyp] by (simp add: all_input_groups_def)
  with run show ?thesis by simp
qed

section \<open>The graphs the constructor builds\<close>

text \<open>\<open>_add_source\<close> sets \<open>graph[a] = OrderedSet(dependency_sources)\<close> together with
  \<open>a._dependencies\<close>: the two maps describe the same edges.\<close>

definition deps_consistent :: "graph_state \<Rightarrow> bool" where
  "deps_consistent st \<longleftrightarrow>
     map_of (gs_graph st) = (\<lambda>a. map_option (\<lambda>l. ordered_set (map snd l)) (map_of (gs_dependencies st) a))"

lemma deps_consistent_step:
  "add_source_step ds inst a st = (st', srcs) \<Longrightarrow> deps_consistent st \<Longrightarrow> deps_consistent st'"
  by (auto simp: add_source_step_def deps_consistent_def fun_eq_iff split: prod.splits)

lemma deps_consistent_bfs_loop: "deps_consistent st \<Longrightarrow> deps_consistent (bfs_loop ds inst q st)"
proof (induction ds inst q st rule: bfs_loop.induct)
  case (1 ds inst q st)
  show ?case
  proof (cases "q = [] \<or> hd q \<in> set (od_keys (gs_graph st))")
    case True
    with "1.IH"(1) "1.prems" show ?thesis by (auto simp: bfs_loop.simps [of ds inst q])
  next
    case False
    obtain st' srcs where step: "add_source_step ds inst (hd q) st = (st', srcs)" by fastforce
    with False "1.IH"(2) [of st' srcs] deps_consistent_step [OF step "1.prems"] show ?thesis
      by (simp add: bfs_loop.simps [of ds inst q])
  qed
qed

lemma deps_consistent_build_graph: "deps_consistent (build_graph ds inst rs dg root)"
  unfolding build_graph_def add_source_loop_bfs_loop
  by (rule deps_consistent_bfs_loop) (simp add: deps_consistent_def graph_state0_def fun_eq_iff)

lemma graph_edges_deps:
  "deps_consistent st \<Longrightarrow> (a, s) \<in> graph_edges (gs_graph st) \<longleftrightarrow> s \<in> snd ` set (deps_of st a)"
  by (cases "map_of (gs_dependencies st) a") (simp_all add: deps_consistent_def graph_edges_def deps_of_def)

lemma dep_edges_graph_edges: "deps_consistent st \<Longrightarrow> dep_edges st = graph_edges (gs_graph st)"
  using graph_edges_deps [of st] by (auto simp: dep_edges_def)

lemma acyclic_dep_edges:
  assumes "is_cyclic (gs_graph st) = Some False" "deps_consistent st"
  shows "acyclic (dep_edges st)"
  unfolding acyclic_def dep_edges_graph_edges [OF assms(2)] using is_cyclic_complete [OF assms(1)] by blast

text \<open>C22: when the constructor has found no cycle, \<open>get_deployment_specifications\<close>
  returns (a value or an exception) for every specification: the unbounded recursion of
  \<open>_get_deployment_specifications\<close> is finite on the graphs \<open>_add_source\<close> builds.\<close>

theorem get_deployment_specifications_returns:
  "is_cyclic (gs_graph (build_graph ds inst rs dg root)) = Some False \<Longrightarrow>
   \<exists>n x. get_deployment_specifications_graph n (build_graph ds inst rs dg root) root spec = Some x"
  using gds_node_returns [OF acyclic_dep_edges [OF _ deps_consistent_build_graph]]
  by (auto simp: get_deployment_specifications_graph_def)


theorem get_deployment_specifications_returns_witness:
  "is_cyclic (gs_graph (build_graph [(''a'', ex_src ''a'' [(''c'', ex_dep ''c'')]), (''b'', ex_src ''b'' []), (''c'', ex_src ''c'' [])] [] [] diagnostics0 (ex_src ''r'' [(''a'', ex_dep ''a''), (''b'', ex_dep ''b'')]))) = Some False
   \<and> (\<exists>n x. get_deployment_specifications_graph n (build_graph [(''a'', ex_src ''a'' [(''c'', ex_dep ''c'')]), (''b'', ex_src ''b'' []), (''c'', ex_src ''c'' [])] [] [] diagnostics0 (ex_src ''r'' [(''a'', ex_dep ''a''), (''b'', ex_dep ''b'')])) (ex_src ''r'' [(''a'', ex_dep ''a''), (''b'', ex_dep ''b'')]) \<lparr>ds_name = ''s'', ds_workload = {''forwarder''}, ds_input_groups = Some {''g''}\<rparr> = Some x)"
proof -
  have acyc: "is_cyclic (gs_graph (build_graph [(''a'', ex_src ''a'' [(''c'', ex_dep ''c'')]), (''b'', ex_src ''b'' []), (''c'', ex_src ''c'' [])] [] [] diagnostics0 (ex_src ''r'' [(''a'', ex_dep ''a''), (''b'', ex_dep ''b'')]))) = Some False" by code_simp
  from get_deployment_specifications_returns [OF acyc] acyc show ?thesis by blast
qed

end
