(* ===== verification/ServerClass.thy ===== *)
theory ServerClass
  imports SpecPropagation
begin

text \<open>
  The server-class collection of src/slim/app/_server_class.py: \<open>AppServerClass\<close> and
  \<open>AppServerClassCollection\<close>.  The installation graph of a server class
  (\<open>AppInstallationGraph\<close>, defined outside src/) is modelled from the design as an ordered
  map from app id to installation record; the services of \<open>AppSource\<close> and of the
  installation graph the collection calls but that are not part of src/ are the fields of
  the record \<open>sc_env\<close>.
\<close>

section \<open>Installations\<close>

record installation =
  inst_id :: string
  inst_package :: string
  inst_dependents :: "string list"
  inst_input_groups :: "(string, string set option) odict"

type_synonym app_installations = "(string, installation) odict"

text \<open>\<open>AppInstallationGraph.remove_installation\<close>: the node goes, and so do the back links
  its dependencies kept to it.\<close>

definition remove_installation :: "installation \<Rightarrow> app_installations \<Rightarrow> app_installations" where
  "remove_installation i apps =
     map (\<lambda>(k, j). (k, j\<lparr>inst_dependents := filter (\<lambda>d. d \<noteq> inst_id i) (inst_dependents j)\<rparr>))
       (od_del (inst_id i) apps)"

text \<open>\<open>AppInstallationGraph.update\<close>: the installations of the new graph replace or extend
  those of the server class.\<close>

definition installations_update :: "app_installations \<Rightarrow> app_installations \<Rightarrow> app_installations" where
  "installations_update apps new = foldl (\<lambda>m (k, i). od_set k i m) apps new"

text \<open>\<open>AppInstallationGraph.update_input_groups\<close>: the groups one dependent app asks for.\<close>

definition update_input_groups :: "string \<Rightarrow> string set option \<Rightarrow> installation \<Rightarrow> installation" where
  "update_input_groups app_id g i = i\<lparr>inst_input_groups := od_set app_id g (inst_input_groups i)\<rparr>"

subsection \<open>The JSON form of an installation graph\<close>

definition groups_to_json :: "string set option \<Rightarrow> json" where
  "groups_to_json g = (case g of None \<Rightarrow> JNull | Some s \<Rightarrow> JArr (map JStr (sorted_list_of_set s)))"

definition installation_to_json :: "installation \<Rightarrow> json" where
  "installation_to_json i =
     JObj [(''source'', JStr (inst_package i)),
           (''dependents'', JArr (map JStr (inst_dependents i))),
           (''inputGroups'', JObj (map (\<lambda>(a, g). (a, groups_to_json g)) (inst_input_groups i)))]"

definition installations_to_json :: "app_installations \<Rightarrow> json" where
  "installations_to_json apps = JObj (map (\<lambda>(k, i). (k, installation_to_json i)) apps)"

fun json_string :: "json \<Rightarrow> py_error + string" where
  "json_string (JStr s) = Inr s"
| "json_string _ = Inl (TypeError ''string expected'')"

definition json_strings :: "json \<Rightarrow> py_error + string list" where
  "json_strings v = (case v of JArr xs \<Rightarrow> mapM json_string xs | _ \<Rightarrow> Inl (TypeError ''array expected''))"

definition groups_from_json :: "json \<Rightarrow> py_error + string set option" where
  "groups_from_json v = (if v = JNull then Inr None else map_sum id (\<lambda>xs. Some (set xs)) (json_strings v))"

definition json_member :: "string \<Rightarrow> json \<Rightarrow> py_error + json" where
  "json_member k v =
     (case v of
        JObj kvs \<Rightarrow> (case map_of (json_object kvs) k of None \<Rightarrow> Inl KeyError | Some x \<Rightarrow> Inr x)
      | _ \<Rightarrow> Inl (TypeError ''object expected''))"

definition json_members :: "json \<Rightarrow> py_error + (string \<times> json) list" where
  "json_members v = (case v of JObj kvs \<Rightarrow> Inr (json_object kvs) | _ \<Rightarrow> Inl (TypeError ''object expected''))"

definition installation_from_json :: "string \<Rightarrow> json \<Rightarrow> py_error + installation" where
  "installation_from_json k v =
     (case json_member ''source'' v of Inl e \<Rightarrow> Inl e | Inr sv \<Rightarrow>
      case json_string sv of Inl e \<Rightarrow> Inl e | Inr p \<Rightarrow>
      case json_member ''dependents'' v of Inl e \<Rightarrow> Inl e | Inr dv \<Rightarrow>
      case json_strings dv of Inl e \<Rightarrow> Inl e | Inr ds \<Rightarrow>
      case json_member ''inputGroups'' v of Inl e \<Rightarrow> Inl e | Inr gv \<Rightarrow>
      case json_members gv of Inl e \<Rightarrow> Inl e | Inr gs \<Rightarrow>
      case mapM (\<lambda>(a, x). map_sum id (Pair a) (groups_from_json x)) gs of Inl e \<Rightarrow> Inl e | Inr igs \<Rightarrow>
        Inr \<lparr>inst_id = k, inst_package = p, inst_dependents = ds, inst_input_groups = igs\<rparr>)"

definition installations_from_json :: "json \<Rightarrow> py_error + app_installations" where
  "installations_from_json v =
     (case json_members v of Inl e \<Rightarrow> Inl e | Inr kvs \<Rightarrow>
        mapM (\<lambda>(k, x). map_sum id (Pair k) (installation_from_json k x)) kvs)"

section \<open>AppServerClass\<close>

record server_class =
  sc_name :: string
  sc_workload :: "string set"
  sc_apps :: app_installations

text \<open>\<open>AppServerClass.remove_app\<close> (lines 189--205).\<close>

definition sc_remove_app :: "string \<Rightarrow> server_class \<Rightarrow> diagnostics \<Rightarrow> server_class \<times> diagnostics" where
  "sc_remove_app app_id sc dg =
     (case map_of (sc_apps sc) app_id of
        None \<Rightarrow> (sc, dg)
      | Some i \<Rightarrow>
          if inst_dependents i \<noteq> []
          then (sc, (log (ErrStillRequired app_id (inst_dependents i)) dg)
                      \<lparr>dg_dependency_requirements := inst_dependents i,
                       dg_status := STATUS_ERROR_DEPENDENCY_REQUIRED\<rparr>)
          else (sc\<lparr>sc_apps := remove_installation i (sc_apps sc)\<rparr>, dg))"

text \<open>\<open>AppServerClass.to_dict\<close> (lines 180--184): the workloads in descending order.\<close>

definition sc_to_dict :: "server_class \<Rightarrow> json" where
  "sc_to_dict sc = JObj [(''workload'', JArr (map JStr (rev (sorted_list_of_set (sc_workload sc))))),
                         (''apps'', installations_to_json (sc_apps sc))]"

text \<open>\<open>AppServerClass.__init__\<close> (lines 64--71): \<open>frozenset(object_view.workload)\<close>, then
  \<open>reload(object_view.apps)\<close>.  Workloads are strings.\<close>

definition sc_init :: "string \<Rightarrow> json \<Rightarrow> py_error + server_class" where
  "sc_init name info =
     (case json_member ''workload'' info of Inl e \<Rightarrow> Inl e | Inr wv \<Rightarrow>
      case json_strings wv of Inl e \<Rightarrow> Inl e | Inr ws \<Rightarrow>
      case json_member ''apps'' info of Inl e \<Rightarrow> Inl e | Inr av \<Rightarrow>
      case installations_from_json av of Inl e \<Rightarrow> Inl e | Inr apps \<Rightarrow>
        Inr \<lparr>sc_name = name, sc_workload = set ws, sc_apps = apps\<rparr>)"

text \<open>\<open>AppServerClass.from_deployment_specification\<close> (lines 147--161): an empty server
  class named and shaped after the specification.\<close>

definition sc_from_spec :: "deployment_spec \<Rightarrow> server_class" where
  "sc_from_spec spec = \<lparr>sc_name = ds_name spec, sc_workload = ds_workload spec, sc_apps = []\<rparr>"

section \<open>AppServerClassCollection\<close>

record sc_collection =
  coll_classes :: "(string, server_class) odict"
  coll_installed :: "(string, string) odict"
  coll_validate :: bool

text \<open>\<open>os.path.basename\<close>: what follows the last slash.\<close>

definition basename :: "string \<Rightarrow> string" where
  "basename p = rev (takeWhile (\<lambda>c. c \<noteq> CHR ''/'') (rev p))"

text \<open>\<open>AppServerClassCollection.__init__\<close> (lines 216--228): the installed packages of all
  server classes, by app id.\<close>

definition coll_init :: "(string, server_class) odict \<Rightarrow> sc_collection" where
  "coll_init cs =
     \<lparr>coll_classes = cs,
      coll_installed = foldl (\<lambda>m i. od_set (inst_id i) (basename (inst_package i)) m) []
                         (concat (map (\<lambda>(_, sc). map snd (sc_apps sc)) cs)),
      coll_validate = True\<rparr>"

text \<open>\<open>AppServerClassCollection.remove_app\<close> (lines 502--510).  \<open>self._collection[name]\<close>
  raises \<open>KeyError\<close> for a name that is not a server class.\<close>

fun remove_app_loop ::
  "string \<Rightarrow> string list \<Rightarrow> (string, server_class) odict \<Rightarrow> bool \<Rightarrow> diagnostics \<Rightarrow>
   py_error + (string, server_class) odict \<times> bool \<times> diagnostics" where
  "remove_app_loop app_id [] cs found dg = Inr (cs, found, dg)"
| "remove_app_loop app_id (name # names) cs found dg =
     (case map_of cs name of
        None \<Rightarrow> Inl KeyError
      | Some sc \<Rightarrow>
          if app_id \<in> fst ` set (sc_apps sc)
          then (case sc_remove_app app_id sc dg of
                  (sc', dg') \<Rightarrow> remove_app_loop app_id names (od_set name sc' cs) True dg')
          else remove_app_loop app_id names cs found dg)"

definition coll_remove_app ::
  "string \<Rightarrow> string list \<Rightarrow> sc_collection \<Rightarrow> diagnostics \<Rightarrow> py_error + sc_collection \<times> diagnostics" where
  "coll_remove_app app_id names c dg =
     (case remove_app_loop app_id names (coll_classes c) False dg of
        Inl e \<Rightarrow> Inl e
      | Inr (cs, found, dg') \<Rightarrow>
          Inr (c\<lparr>coll_classes := cs\<rparr>, if found then dg' else log (WarnNotInstalled app_id) dg'))"

text \<open>\<open>AppServerClassCollection.save\<close> (lines 486--490): the installation-graph document.
  Writing it to a file is I/O.\<close>

definition coll_save :: "sc_collection \<Rightarrow> json" where
  "coll_save c = JObj (map (\<lambda>(name, sc). (name, sc_to_dict sc)) (coll_classes c))"

text \<open>\<open>AppServerClassCollection.load\<close> (lines 314--324) on the decoded document.  Listing
  the repository directory and reading the file are I/O.\<close>

definition load_step ::
  "(string, server_class) odict \<times> diagnostics \<Rightarrow> string \<times> json \<Rightarrow>
   py_error + (string, server_class) odict \<times> diagnostics" where
  "load_step acc entry =
     (case (acc, entry) of ((cs, dg), (name, info)) \<Rightarrow>
       (case sc_init name info of
          Inl e \<Rightarrow> Inl e
        | Inr sc \<Rightarrow> Inr (od_set name sc cs,
                         if name \<in> fst ` set cs then log (WarnDuplicateServerClass name) dg else dg)))"

definition coll_load :: "json \<Rightarrow> diagnostics \<Rightarrow> py_error + sc_collection \<times> diagnostics" where
  "coll_load doc dg =
     (case json_members doc of
        Inl e \<Rightarrow> Inl e
      | Inr kvs \<Rightarrow> (case foldM load_step ([], dg) kvs of
          Inl e \<Rightarrow> Inl e
        | Inr (cs, dg') \<Rightarrow> Inr (coll_init cs, dg')))"

text \<open>\<open>AppServerClassCollection.reload\<close> (lines 326--332): every server class re-reads its
  installation graph from its own JSON form.\<close>

definition coll_reload :: "sc_collection \<Rightarrow> py_error + sc_collection" where
  "coll_reload c =
     map_sum id (\<lambda>cs. c\<lparr>coll_classes := cs\<rparr>)
       (mapM (\<lambda>(name, sc). map_sum id (\<lambda>apps. (name, sc\<lparr>sc_apps := apps\<rparr>))
                (installations_from_json (installations_to_json (sc_apps sc))))
          (coll_classes c))"

section \<open>Adding and updating\<close>

text \<open>The services the collection calls that are not part of src/: \<open>AppSource(path)\<close> and its
  manifest, the dependency and repository sources it populates, and the installation-graph and
  deployment-package steps of \<open>AppInstallationGraph\<close>.
  Each returns the messages it logs.\<close>

record sc_env =
  env_load_source :: "string \<Rightarrow> app_source \<times> diag list"
  env_target_workloads :: "app_source \<Rightarrow> string list"
  env_dependency_sources :: "app_source \<Rightarrow> (string, app_source) odict"
  env_repository_sources :: "app_source \<Rightarrow> (string, string) odict \<Rightarrow> (string, app_source) odict"
  env_from_dependency_graph :: "server_class \<Rightarrow> graph_state \<Rightarrow> bool \<Rightarrow> bool \<Rightarrow> app_installations \<times> diag list"
  env_validate_spec :: "app_source \<Rightarrow> deployment_spec \<Rightarrow> diag list"
  env_package_empty :: "installation \<Rightarrow> deployment_spec \<Rightarrow> bool"

text \<open>\<open>app_source.manifest.targetWorkloads or ['*']\<close>.\<close>

definition target_workloads :: "sc_env \<Rightarrow> app_source \<Rightarrow> string list" where
  "target_workloads env src = (if env_target_workloads env src = [] then [''*''] else env_target_workloads env src)"

definition targets :: "string list \<Rightarrow> string \<Rightarrow> bool" where
  "targets tw name \<longleftrightarrow> ''*'' \<in> set tw \<or> name \<in> set tw"

text \<open>Python's default recursion limit bounds the depth of
  \<open>_get_deployment_specifications\<close>; deeper graphs raise \<open>RecursionError\<close>.\<close>

definition python_recursion_limit :: nat where
  "python_recursion_limit = 1000"

text \<open>The loop over \<open>source_specifications\<close> in \<open>add\<close> (lines 395--402).\<close>

definition prepare_source ::
  "sc_env \<Rightarrow> string \<Rightarrow> bool \<Rightarrow> app_installations \<times> installation list \<times> diagnostics \<Rightarrow>
   app_source \<times> deployment_spec \<Rightarrow> py_error + app_installations \<times> installation list \<times> diagnostics" where
  "prepare_source env app_id is_external acc ss =
     (case (acc, ss) of ((ig, rl, dg), (source, spec)) \<Rightarrow>
       (let dg' = log_all (env_validate_spec env source spec) dg in
        case map_of ig (src_id source) of
          None \<Rightarrow> Inl KeyError
        | Some i \<Rightarrow>
            (let i' = update_input_groups app_id (ds_input_groups spec) i in
             Inr (od_set (src_id source) i' ig,
                  if \<not> is_external \<and> env_package_empty env i' spec then rl @ [i'] else rl, dg'))))"

text \<open>The loop over \<open>removal_list\<close> in \<open>add\<close> (lines 404--411).\<close>

fun removal_loop :: "installation list \<Rightarrow> app_installations \<Rightarrow> app_installations" where
  "removal_loop [] ig = ig"
| "removal_loop (i # is) ig =
     (if ig = [] then ig
      else if inst_id i \<notin> fst ` set ig then removal_loop is ig
      else removal_loop is (remove_installation i ig))"

text \<open>One deployment specification of \<open>add\<close> (lines 369--413).  The accumulator holds the
  server classes, the method's local \<open>error_count\<close> and the diagnostics.\<close>

definition add_step ::
  "sc_env \<Rightarrow> app_source \<Rightarrow> graph_state \<Rightarrow> bool \<Rightarrow> bool \<Rightarrow>
   (string, server_class) odict \<times> nat \<times> diagnostics \<Rightarrow> deployment_spec \<Rightarrow>
   py_error + (string, server_class) odict \<times> nat \<times> diagnostics" where
  "add_step env src st validate is_external acc spec =
     (case acc of (cs, ec, dg) \<Rightarrow>
       (let name = ds_name spec in
        if \<not> targets (target_workloads env src) name
        then Inr (cs, ec, log (WarnNonTargeted name) dg)
        else
          (let (sc, cs1) = (case map_of cs name of
                              Some sc \<Rightarrow> (sc, cs)
                            | None \<Rightarrow> (sc_from_spec spec, od_set name (sc_from_spec spec) cs));
               (ig, ms) = env_from_dependency_graph env sc st validate is_external;
               dg1 = log_all ms dg
           in if ec < error_count dg1 then Inr (cs1, error_count dg1, dg1)
              else (case get_deployment_specifications_graph python_recursion_limit st src spec of
                      None \<Rightarrow> Inl RecursionError
                    | Some (Inl e) \<Rightarrow> Inl e
                    | Some (Inr ss) \<Rightarrow>
                        (case foldM (prepare_source env (src_id src) is_external) (ig, [], dg1) ss of
                           Inl e \<Rightarrow> Inl e
                         | Inr (ig', rl, dg2) \<Rightarrow>
                             Inr (od_set name (sc\<lparr>sc_apps := installations_update (sc_apps sc) (removal_loop rl ig')\<rparr>) cs1,
                                  ec, dg2))))))"

text \<open>\<open>AppServerClassCollection.add\<close> (lines 336--413).  The test after the dependency graph
  reads the process-wide error count.\<close>

definition coll_add ::
  "sc_env \<Rightarrow> app_source \<Rightarrow> deployment_spec list \<Rightarrow> bool \<Rightarrow> sc_collection \<Rightarrow> diagnostics \<Rightarrow>
   py_error + sc_collection \<times> diagnostics" where
  "coll_add env src specs is_external c dg =
     (let st = app_dependency_graph (env_dependency_sources env src) (coll_installed c)
                 (env_repository_sources env src (coll_installed c)) dg src
      in if error_count (gs_diag st) \<noteq> 0 then Inr (c, gs_diag st)
         else (case foldM (add_step env src st (coll_validate c) is_external) (coll_classes c, 0, gs_diag st) specs of
                 Inl e \<Rightarrow> Inl e
               | Inr (cs, _, dg') \<Rightarrow> Inr (c\<lparr>coll_classes := cs\<rparr>, dg')))"

text \<open>One server class of \<open>update_app\<close> (lines 436--453).\<close>

definition update_step ::
  "sc_env \<Rightarrow> app_source \<Rightarrow> graph_state \<Rightarrow> bool \<Rightarrow>
   (string, server_class) odict \<times> nat \<times> diagnostics \<Rightarrow> string \<Rightarrow>
   py_error + (string, server_class) odict \<times> nat \<times> diagnostics" where
  "update_step env src st validate acc name =
     (case acc of (cs, ec, dg) \<Rightarrow>
       (case map_of cs name of
          None \<Rightarrow> Inl KeyError
        | Some sc \<Rightarrow>
            if map_of (sc_apps sc) (src_id src) = None \<and> targets (target_workloads env src) name
            then Inr (cs, ec, log (WarnUntargetedUpdate (src_id src) name) dg)
            else (case env_from_dependency_graph env sc st validate False of
                    (ig, ms) \<Rightarrow>
                      (let dg1 = log_all ms dg in
                       if ec < error_count dg1 then Inr (cs, error_count dg1, dg1)
                       else Inr (od_set name (sc\<lparr>sc_apps := installations_update (sc_apps sc) ig\<rparr>) cs, ec, dg1)))))"

text \<open>\<open>AppServerClassCollection.update_app\<close> (lines 416--453).\<close>

definition coll_update_app ::
  "sc_env \<Rightarrow> app_source \<Rightarrow> sc_collection \<Rightarrow> diagnostics \<Rightarrow> py_error + sc_collection \<times> diagnostics" where
  "coll_update_app env src c dg =
     (let st = app_dependency_graph (env_dependency_sources env src) (coll_installed c)
                 (env_repository_sources env src (coll_installed c)) dg src
      in if error_count (gs_diag st) \<noteq> 0 then Inr (c, gs_diag st)
         else (case foldM (update_step env src st (coll_validate c)) (coll_classes c, 0, gs_diag st)
                      (od_keys (coll_classes c)) of
                 Inl e \<Rightarrow> Inl e
               | Inr (cs, _, dg') \<Rightarrow> Inr (c\<lparr>coll_classes := cs\<rparr>, dg')))"

section \<open>Installation actions\<close>

record install_action =
  act_action :: string
  act_name :: string
  act_app_id :: string
  act_app_package :: string
  act_deployment_packages :: "deployment_spec list"
  act_combine :: bool
  act_workloads :: "deployment_spec list option"
  act_is_external :: bool

text \<open>The server classes the \<open>set\<close> action takes the app off: those it is on and that the
  new specifications do not name.  Python iterates this set in an unspecified order; the
  model takes the sorted order.\<close>

definition set_removal_list :: "string \<Rightarrow> (string, server_class) odict \<Rightarrow> deployment_spec list \<Rightarrow> string list" where
  "set_removal_list app_id cs specs =
     sorted_list_of_set (set [name. (name, sc) \<leftarrow> cs, map_of (sc_apps sc) app_id \<noteq> None] - set (map ds_name specs))"

text \<open>\<open>AppServerClassCollection.update_installation\<close> (lines 512--568).\<close>

definition coll_update_installation ::
  "sc_env \<Rightarrow> install_action \<Rightarrow> sc_collection \<Rightarrow> diagnostics \<Rightarrow> py_error + sc_collection \<times> diagnostics" where
  "coll_update_installation env a c dg =
     (if act_action a = ''remove'' then coll_remove_app (act_app_id a) (od_keys (coll_classes c)) c dg
      else if act_action a = ''add'' \<or> act_action a = ''set'' then
        (case env_load_source env (act_app_package a) of (src, ms) \<Rightarrow>
          (let dg1 = log_all ms dg in
           if error_count dg1 \<noteq> 0 then Inr (c, dg1)
           else (case get_deployment_specifications (act_deployment_packages a) (act_combine a) (act_workloads a) dg1 of
                   (Inl e, _) \<Rightarrow> Inl e
                 | (Inr specs, dg2) \<Rightarrow>
                     if error_count dg2 \<noteq> 0 then Inr (c, dg2)
                     else if act_action a = ''set''
                     then (case coll_remove_app (src_id src) (set_removal_list (src_id src) (coll_classes c) specs) c dg2 of
                             Inl e \<Rightarrow> Inl e
                           | Inr (c', dg3) \<Rightarrow>
                               if error_count dg3 \<noteq> 0 then Inr (c', dg3)
                               else coll_add env src specs (act_is_external a) c' dg3)
                     else coll_add env src specs (act_is_external a) c dg2)))
      else if act_action a = ''update'' then
        (case env_load_source env (act_app_package a) of (src, ms) \<Rightarrow>
          (let dg1 = log_all ms dg in
           if error_count dg1 = 0 then coll_update_app env src c dg1 else Inr (c, dg1)))
      else Inr (c, log (ErrUnknownAction (act_name a)) dg))"


section \<open>Well-formedness and the abstract removal\<close>

text \<open>The invariant of a collection: server-class names are distinct and name their
  server class; workloads are finite; in every installation graph the keys are distinct
  app ids naming their installation, and every requested group set is finite.\<close>

definition groups_ok :: "string set option \<Rightarrow> bool" where
  "groups_ok g = (case g of None \<Rightarrow> True | Some s \<Rightarrow> finite s)"

definition apps_wf :: "app_installations \<Rightarrow> bool" where
  "apps_wf apps \<longleftrightarrow> distinct (od_keys apps) \<and>
     (\<forall>(k, i) \<in> set apps. inst_id i = k \<and> distinct (od_keys (inst_input_groups i)) \<and>
        (\<forall>(a, g) \<in> set (inst_input_groups i). groups_ok g))"

definition sc_wf :: "string \<Rightarrow> server_class \<Rightarrow> bool" where
  "sc_wf n sc \<longleftrightarrow> sc_name sc = n \<and> finite (sc_workload sc) \<and> apps_wf (sc_apps sc)"

definition classes_wf :: "(string, server_class) odict \<Rightarrow> bool" where
  "classes_wf cs \<longleftrightarrow> distinct (od_keys cs) \<and> (\<forall>(n, sc) \<in> set cs. sc_wf n sc)"

definition coll_wf :: "sc_collection \<Rightarrow> bool" where
  "coll_wf c \<longleftrightarrow> classes_wf (coll_classes c)"

text \<open>What \<open>remove_app\<close> promises for one server class: an installed app without
  dependents is removed, any other server class is left as it is.\<close>

definition sc_without :: "string \<Rightarrow> server_class \<Rightarrow> server_class" where
  "sc_without a sc =
     (case map_of (sc_apps sc) a of
        Some i \<Rightarrow> if inst_dependents i = [] then sc\<lparr>sc_apps := remove_installation i (sc_apps sc)\<rparr> else sc
      | None \<Rightarrow> sc)"

section \<open>Scenarios\<close>

text \<open>Installations, server classes and an environment to run the operations on: every
  installation graph the environment derives installs each node of the dependency graph.\<close>

definition ex_inst :: "string \<Rightarrow> string list \<Rightarrow> installation" where
  "ex_inst a ds = \<lparr>inst_id = a, inst_package = ''repository/'' @ a @ ''.tgz'', inst_dependents = ds, inst_input_groups = []\<rparr>"

definition ex_class :: "string \<Rightarrow> installation list \<Rightarrow> server_class" where
  "ex_class n is = \<lparr>sc_name = n, sc_workload = {''search_head''}, sc_apps = map (\<lambda>i. (inst_id i, i)) is\<rparr>"

definition ex_env :: "string list \<Rightarrow> sc_env" where
  "ex_env tw =
     \<lparr>env_load_source = \<lambda>p. (ex_src p [], []),
      env_target_workloads = \<lambda>_. tw,
      env_dependency_sources = \<lambda>_. [],
      env_repository_sources = \<lambda>_ _. [],
      env_from_dependency_graph = \<lambda>sc st v e. (map (\<lambda>s. (src_id s, ex_inst (src_id s) [])) (od_keys (gs_graph st)), []),
      env_validate_spec = \<lambda>_ _. [],
      env_package_empty = \<lambda>_ _. False\<rparr>"

definition ex_action :: "string \<Rightarrow> string \<Rightarrow> deployment_spec list \<Rightarrow> install_action" where
  "ex_action act app specs =
     \<lparr>act_action = act, act_name = act, act_app_id = app, act_app_package = app,
      act_deployment_packages = specs, act_combine = False, act_workloads = None, act_is_external = False\<rparr>"

definition ex_coll :: sc_collection where
  "ex_coll = coll_init [(''sh'', ex_class ''sh'' [ex_inst ''pkg-a'' [''pkg-c''], ex_inst ''pkg-c'' []])]"

section \<open>Round trips of the installation-graph document\<close>

lemma map_sum_eq_Inr [simp]: "map_sum f g x = Inr y \<longleftrightarrow> (\<exists>z. x = Inr z \<and> y = g z)"
  by (cases x) auto

lemma mapM_map_Inr: "(\<And>x. x \<in> set xs \<Longrightarrow> f (h x) = Inr x) \<Longrightarrow> mapM f (map h xs) = Inr xs"
  by (induction xs) simp_all

lemma json_strings_strs [simp]: "json_strings (JArr (map JStr xs)) = Inr xs"
  by (induction xs) (simp_all add: json_strings_def)

lemma groups_roundtrip: "groups_ok g \<Longrightarrow> groups_from_json (groups_to_json g) = Inr g"
  by (cases g) (simp_all add: groups_ok_def groups_from_json_def groups_to_json_def)

lemma json_member_obj:
  "distinct (map fst kvs) \<Longrightarrow> json_member k (JObj kvs) = (case map_of kvs k of None \<Rightarrow> Inl KeyError | Some x \<Rightarrow> Inr x)"
  by (simp add: json_member_def json_object_distinct)

lemma json_members_obj: "distinct (map fst kvs) \<Longrightarrow> json_members (JObj kvs) = Inr kvs"
  by (simp add: json_members_def json_object_distinct)

lemma fst_comp_map_pair [simp]: "fst \<circ> (\<lambda>(k, x). (k, f x)) = fst"
  by auto

lemma installation_roundtrip:
  assumes "inst_id i = k" "distinct (od_keys (inst_input_groups i))"
    "\<forall>(a, g) \<in> set (inst_input_groups i). groups_ok g"
  shows "installation_from_json k (installation_to_json i) = Inr i"
proof -
  have "mapM (\<lambda>(a, x). map_sum id (Pair a) (groups_from_json x)) (map (\<lambda>(a, g). (a, groups_to_json g)) (inst_input_groups i))
        = Inr (inst_input_groups i)"
    using assms(3) by (intro mapM_map_Inr) (auto simp: groups_roundtrip)
  with assms(1,2) show ?thesis
    by (simp add: installation_from_json_def installation_to_json_def json_member_obj json_members_obj)
qed

lemma installations_roundtrip: "apps_wf apps \<Longrightarrow> installations_from_json (installations_to_json apps) = Inr apps"
  unfolding installations_from_json_def installations_to_json_def apps_wf_def
  by (simp add: json_members_obj, intro mapM_map_Inr) (auto simp: installation_roundtrip)

lemma sc_roundtrip: "sc_wf n sc \<Longrightarrow> sc_init n (sc_to_dict sc) = Inr sc"
  by (simp add: sc_wf_def sc_init_def sc_to_dict_def json_member_obj installations_roundtrip)

lemma load_loop_roundtrip:
  "classes_wf (acc @ cs) \<Longrightarrow>
   foldM load_step (acc, dg) (map (\<lambda>(n, sc). (n, sc_to_dict sc)) cs) = Inr (acc @ cs, dg)"
proof (induction cs arbitrary: acc)
  case (Cons nsc cs)
  obtain n sc where nsc: "nsc = (n, sc)" by (cases nsc)
  from Cons.prems nsc have wf: "sc_wf n sc" and new: "n \<notin> fst ` set acc"
    by (auto simp: classes_wf_def)
  from new have "od_set n sc acc = acc @ [(n, sc)]" by (rule od_set_new)
  with wf new have "load_step (acc, dg) (n, sc_to_dict sc) = Inr (acc @ [(n, sc)], dg)"
    by (simp add: load_step_def sc_roundtrip)
  with Cons.IH [of "acc @ [(n, sc)]"] Cons.prems nsc show ?case by simp
qed simp

section \<open>Removing an app\<close>

lemma sc_remove_app_class [simp]: "fst (sc_remove_app a sc dg) = sc_without a sc"
  by (simp add: sc_remove_app_def sc_without_def split: option.splits)

lemma sc_without_absent: "a \<notin> fst ` set (sc_apps sc) \<Longrightarrow> sc_without a sc = sc"
proof -
  assume "a \<notin> fst ` set (sc_apps sc)"
  then have "map_of (sc_apps sc) a = None" by (simp add: map_of_eq_None_iff)
  then show ?thesis by (simp add: sc_without_def)
qed

lemma remove_app_loop_Cons:
  "remove_app_loop a (name # names) cs found dg =
     (case map_of cs name of
        None \<Rightarrow> Inl KeyError
      | Some sc \<Rightarrow> remove_app_loop a names (if a \<in> fst ` set (sc_apps sc) then od_set name (sc_without a sc) cs else cs)
                     (found \<or> a \<in> fst ` set (sc_apps sc))
                     (if a \<in> fst ` set (sc_apps sc) then snd (sc_remove_app a sc dg) else dg))"
proof (cases "map_of cs name")
  case (Some sc)
  then show ?thesis
    by (cases "a \<in> fst ` set (sc_apps sc)") (simp_all add: case_prod_beta)
qed simp

lemma remove_app_loop_ConsD:
  "remove_app_loop a (name # names) cs found dg = Inr r \<Longrightarrow>
   \<exists>sc. map_of cs name = Some sc \<and>
     remove_app_loop a names (if a \<in> fst ` set (sc_apps sc) then od_set name (sc_without a sc) cs else cs)
       (found \<or> a \<in> fst ` set (sc_apps sc))
       (if a \<in> fst ` set (sc_apps sc) then snd (sc_remove_app a sc dg) else dg) = Inr r"
  by (simp only: remove_app_loop_Cons split: option.splits) simp_all

lemma map_of_remove_step:
  "map_of cs name = Some sc \<Longrightarrow>
   map_of (if a \<in> fst ` set (sc_apps sc) then od_set name (sc_without a sc) cs else cs) = (map_of cs)(name \<mapsto> sc_without a sc)"
  using sc_without_absent [of a sc] by (auto simp: fun_eq_iff)

lemma remove_app_loop_classes:
  "remove_app_loop a names cs found dg = Inr (cs', found', dg') \<Longrightarrow> distinct names \<Longrightarrow>
   map_of cs' n = (if n \<in> set names then map_option (sc_without a) (map_of cs n) else map_of cs n)"
proof (induction names arbitrary: cs found dg)
  case (Cons name names)
  from remove_app_loop_ConsD [OF Cons.prems(1)] obtain sc where sc: "map_of cs name = Some sc"
    and step: "remove_app_loop a names (if a \<in> fst ` set (sc_apps sc) then od_set name (sc_without a sc) cs else cs)
       (found \<or> a \<in> fst ` set (sc_apps sc))
       (if a \<in> fst ` set (sc_apps sc) then snd (sc_remove_app a sc dg) else dg) = Inr (cs', found', dg')"
    by blast
  from Cons.IH [OF step] Cons.prems(2) map_of_remove_step [OF sc, of a] sc show ?case by auto
qed simp

lemma remove_app_loop_total:
  "set names \<subseteq> fst ` set cs \<Longrightarrow> \<exists>cs' found' dg'. remove_app_loop a names cs found dg = Inr (cs', found', dg')"
proof (induction names arbitrary: cs found dg)
  case (Cons name names)
  then obtain sc where sc: "map_of cs name = Some sc"
    by (metis list.set_intros(1) subsetD map_of_eq_None_iff option.exhaust)
  have "fst ` set (if a \<in> fst ` set (sc_apps sc) then od_set name (sc_without a sc) cs else cs) = fst ` set cs"
    using Cons.prems by auto
  with Cons.IH Cons.prems sc show ?case
    by (simp add: remove_app_loop_Cons del: remove_app_loop.simps(2))
qed simp

lemma remove_app_loop_log:
  "remove_app_loop a names cs found dg = Inr (cs', found', dg') \<Longrightarrow> set (dg_log dg) \<subseteq> set (dg_log dg')"
proof (induction names arbitrary: cs found dg)
  case (Cons name names)
  from remove_app_loop_ConsD [OF Cons.prems(1)] obtain sc where
    step: "remove_app_loop a names (if a \<in> fst ` set (sc_apps sc) then od_set name (sc_without a sc) cs else cs)
       (found \<or> a \<in> fst ` set (sc_apps sc))
       (if a \<in> fst ` set (sc_apps sc) then snd (sc_remove_app a sc dg) else dg) = Inr (cs', found', dg')"
    by blast
  have "set (dg_log dg) \<subseteq> set (dg_log (if a \<in> fst ` set (sc_apps sc) then snd (sc_remove_app a sc dg) else dg))"
    by (auto simp: sc_remove_app_def log_def split: option.splits)
  with Cons.IH [OF step] show ?case by blast
qed simp

lemma remove_app_loop_blocked:
  "remove_app_loop a names cs found dg = Inr (cs', found', dg') \<Longrightarrow> n \<in> set names \<Longrightarrow>
   map_of cs n = Some sc \<Longrightarrow> map_of (sc_apps sc) a = Some i \<Longrightarrow> inst_dependents i \<noteq> [] \<Longrightarrow>
   ErrStillRequired a (inst_dependents i) \<in> set (dg_log dg')"
proof (induction names arbitrary: cs found dg)
  case (Cons name names)
  from remove_app_loop_ConsD [OF Cons.prems(1)] obtain sc0 where sc0: "map_of cs name = Some sc0" and
    step: "remove_app_loop a names (if a \<in> fst ` set (sc_apps sc0) then od_set name (sc_without a sc0) cs else cs)
       (found \<or> a \<in> fst ` set (sc_apps sc0))
       (if a \<in> fst ` set (sc_apps sc0) then snd (sc_remove_app a sc0 dg) else dg) = Inr (cs', found', dg')"
    by blast
  have keep: "sc_without a sc = sc" using Cons.prems(4,5) by (simp add: sc_without_def)
  have inapp: "a \<in> fst ` set (sc_apps sc)" using Cons.prems(4) by (force dest: map_of_SomeD)
  show ?case
  proof (cases "name = n")
    case True
    with sc0 Cons.prems(3) have "sc0 = sc" by simp
    with Cons.prems(4,5) have "ErrStillRequired a (inst_dependents i) \<in> set (dg_log (snd (sc_remove_app a sc0 dg)))"
      by (simp add: sc_remove_app_def log_def)
    moreover from step inapp \<open>sc0 = sc\<close>
    have "remove_app_loop a names (od_set name (sc_without a sc0) cs) True (snd (sc_remove_app a sc0 dg)) = Inr (cs', found', dg')"
      by simp
    ultimately show ?thesis using remove_app_loop_log by blast
  next
    case False
    with Cons.prems(2) have "n \<in> set names" by simp
    moreover have "map_of (if a \<in> fst ` set (sc_apps sc0) then od_set name (sc_without a sc0) cs else cs) n = Some sc"
      using False Cons.prems(3) map_of_remove_step [OF sc0, of a] by simp
    ultimately show ?thesis by (rule Cons.IH [OF step _ _ Cons.prems(4,5)])
  qed
qed simp

section \<open>Updating and adding\<close>

lemma update_step_other:
  "update_step env src st v (cs, ec, dg) name = Inr (cs1, ec1, dg1) \<Longrightarrow> name \<noteq> n \<Longrightarrow> map_of cs1 n = map_of cs n"
  by (auto simp: update_step_def Let_def split: option.splits prod.splits if_splits)

lemma update_step_targeted:
  "update_step env src st v (cs, ec, dg) n = Inr (cs1, ec1, dg1) \<Longrightarrow> map_of cs n = Some sc \<Longrightarrow>
   map_of (sc_apps sc) (src_id src) = None \<Longrightarrow> targets (target_workloads env src) n \<Longrightarrow> cs1 = cs"
  by (simp add: update_step_def)

lemma update_loop_targeted:
  "foldM (update_step env src st v) (cs, ec, dg) names = Inr (cs', ec', dg') \<Longrightarrow> map_of cs n = Some sc \<Longrightarrow>
   map_of (sc_apps sc) (src_id src) = None \<Longrightarrow> targets (target_workloads env src) n \<Longrightarrow> map_of cs' n = Some sc"
proof (induction names arbitrary: cs ec dg)
  case (Cons name names)
  then obtain cs1 ec1 dg1 where step: "update_step env src st v (cs, ec, dg) name = Inr (cs1, ec1, dg1)"
    and rest: "foldM (update_step env src st v) (cs1, ec1, dg1) names = Inr (cs', ec', dg')"
    by (auto split: sum.splits)
  have "map_of cs1 n = Some sc"
  proof (cases "name = n")
    case True
    with step Cons.prems(2-4) show ?thesis using update_step_targeted by blast
  next
    case False
    with step Cons.prems(2) show ?thesis using update_step_other by metis
  qed
  with Cons.IH [OF rest] Cons.prems(3,4) show ?case by blast
qed simp

lemma update_loop_total:
  "set names \<subseteq> fst ` set cs \<Longrightarrow> \<exists>cs' ec' dg'. foldM (update_step env src st v) (cs, ec, dg) names = Inr (cs', ec', dg')"
proof (induction names arbitrary: cs ec dg)
  case (Cons name names)
  then obtain sc where sc: "map_of cs name = Some sc"
    by (metis list.set_intros(1) subsetD map_of_eq_None_iff option.exhaust)
  have absorb: "insert name (fst ` set cs) = fst ` set cs"
    using sc by (auto dest: map_of_SomeD intro: rev_image_eqI)
  have "\<exists>cs1 ec1 dg1. update_step env src st v (cs, ec, dg) name = Inr (cs1, ec1, dg1) \<and> fst ` set cs1 = fst ` set cs"
    using sc absorb by (simp add: update_step_def Let_def case_prod_beta)
  then obtain cs1 ec1 dg1 where step: "update_step env src st v (cs, ec, dg) name = Inr (cs1, ec1, dg1)"
    and keys: "fst ` set cs1 = fst ` set cs"
    by blast
  with Cons.IH [of cs1 ec1 dg1] Cons.prems show ?case by simp
qed simp

lemma add_step_keys:
  "add_step env src st v e (cs, ec, dg) spec = Inr (cs', ec', dg') \<Longrightarrow>
   fst ` set cs' = fst ` set cs \<union> (if targets (target_workloads env src) (ds_name spec) then {ds_name spec} else {})"
proof -
  have absorb: "map_of xs k = Some x \<Longrightarrow> insert k (fst ` set xs) = fst ` set xs" for xs :: "(string, server_class) odict" and k x
    by (auto dest: map_of_SomeD intro: rev_image_eqI)
  assume "add_step env src st v e (cs, ec, dg) spec = Inr (cs', ec', dg')"
  then show ?thesis
    by (simp add: add_step_def Let_def absorb split: option.splits prod.splits sum.splits if_splits)
      (elim conjE, hypsubst, simp add: absorb)+
qed

lemma add_loop_keys:
  "foldM (add_step env src st v e) (cs, ec, dg) specs = Inr (cs', ec', dg') \<Longrightarrow>
   fst ` set cs' = fst ` set cs \<union> ds_name ` {s \<in> set specs. targets (target_workloads env src) (ds_name s)}"
proof (induction specs arbitrary: cs ec dg)
  case (Cons spec specs)
  then obtain cs1 ec1 dg1 where step: "add_step env src st v e (cs, ec, dg) spec = Inr (cs1, ec1, dg1)"
    and rest: "foldM (add_step env src st v e) (cs1, ec1, dg1) specs = Inr (cs', ec', dg')"
    by (auto split: sum.splits)
  from Cons.IH [OF rest] add_step_keys [OF step] show ?case by auto
qed simp

section \<open>Properties\<close>

text \<open>C24: the scenario of the design: removing an app that another app of its server class still depends on fails.  The \<open>remove\<close> action leaves that server class as it was and logs an error that names the blocking dependents.\<close>

theorem remove_action_blocked:
  "act_action act = ''remove'' \<Longrightarrow> map_of (coll_classes c) n = Some sc \<Longrightarrow> coll_wf c \<Longrightarrow>
   map_of (sc_apps sc) (act_app_id act) = Some i \<Longrightarrow> inst_dependents i \<noteq> [] \<Longrightarrow>
   \<exists>c' dg'. coll_update_installation env act c dg = Inr (c', dg') \<and> map_of (coll_classes c') n = Some sc \<and>
     ErrStillRequired (act_app_id act) (inst_dependents i) \<in> set (dg_log dg')"
proof -
  assume act: "act_action act = ''remove''" and sc: "map_of (coll_classes c) n = Some sc" and wf: "coll_wf c"
    and i: "map_of (sc_apps sc) (act_app_id act) = Some i" and deps: "inst_dependents i \<noteq> []"
  have d: "distinct (od_keys (coll_classes c))" using wf by (simp add: coll_wf_def classes_wf_def)
  have n: "n \<in> set (od_keys (coll_classes c))" using sc by (force dest: map_of_SomeD)
  from remove_app_loop_total [of "od_keys (coll_classes c)" "coll_classes c" "act_app_id act" False dg]
  obtain cs' found' dg' where
    loop: "remove_app_loop (act_app_id act) (od_keys (coll_classes c)) (coll_classes c) False dg = Inr (cs', found', dg')"
    by auto
  have "map_of cs' n = Some sc"
    using remove_app_loop_classes [OF loop d, of n] n sc i deps by (simp add: sc_without_def)
  moreover have "ErrStillRequired (act_app_id act) (inst_dependents i) \<in> set (dg_log dg')"
    using remove_app_loop_blocked [OF loop _ sc i deps] n by simp
  ultimately show ?thesis using act loop
    by (simp add: coll_update_installation_def coll_remove_app_def log_def)
qed

theorem remove_action_blocked_witness:
  "act_action (ex_action ''remove'' ''pkg-a'' []) = ''remove'' \<and>
   map_of (coll_classes ex_coll) ''sh'' = Some (ex_class ''sh'' [ex_inst ''pkg-a'' [''pkg-c''], ex_inst ''pkg-c'' []]) \<and>
   coll_wf ex_coll \<and>
   map_of (sc_apps (ex_class ''sh'' [ex_inst ''pkg-a'' [''pkg-c''], ex_inst ''pkg-c'' []])) (act_app_id (ex_action ''remove'' ''pkg-a'' [])) = Some (ex_inst ''pkg-a'' [''pkg-c'']) \<and>
   inst_dependents (ex_inst ''pkg-a'' [''pkg-c'']) \<noteq> [] \<and>
   (\<exists>c' dg'. coll_update_installation (ex_env [''*'']) (ex_action ''remove'' ''pkg-a'' []) ex_coll diagnostics0 = Inr (c', dg') \<and>
      map_of (coll_classes c') ''sh'' = Some (ex_class ''sh'' [ex_inst ''pkg-a'' [''pkg-c''], ex_inst ''pkg-c'' []]) \<and>
      ErrStillRequired (act_app_id (ex_action ''remove'' ''pkg-a'' [])) (inst_dependents (ex_inst ''pkg-a'' [''pkg-c''])) \<in> set (dg_log dg'))"
proof -
  have h1: "act_action (ex_action ''remove'' ''pkg-a'' []) = ''remove''" by (simp add: ex_action_def)
  have h2: "map_of (coll_classes ex_coll) ''sh'' = Some (ex_class ''sh'' [ex_inst ''pkg-a'' [''pkg-c''], ex_inst ''pkg-c'' []])"
    by (simp add: ex_coll_def coll_init_def)
  have h3: "coll_wf ex_coll"
    by (simp add: ex_coll_def coll_init_def coll_wf_def classes_wf_def sc_wf_def apps_wf_def ex_class_def ex_inst_def)
  have h4: "map_of (sc_apps (ex_class ''sh'' [ex_inst ''pkg-a'' [''pkg-c''], ex_inst ''pkg-c'' []])) (act_app_id (ex_action ''remove'' ''pkg-a'' [])) = Some (ex_inst ''pkg-a'' [''pkg-c''])"
    by (simp add: ex_class_def ex_inst_def ex_action_def)
  have h5: "inst_dependents (ex_inst ''pkg-a'' [''pkg-c'']) \<noteq> []" by (simp add: ex_inst_def)
  from remove_action_blocked [OF h1 h2 h3 h4 h5] h1 h2 h3 h4 h5 show ?thesis by blast
qed

text \<open>C25: \<open>remove_app\<close> refines the abstract removal \<open>sc_without\<close>: on distinct names of existing server classes it never raises, and afterwards every named server class is what \<open>sc_without\<close> makes of it while the others are unchanged.\<close>

theorem remove_app_refines:
  "distinct names \<Longrightarrow> set names \<subseteq> fst ` set (coll_classes c) \<Longrightarrow>
   \<exists>c' dg'. coll_remove_app a names c dg = Inr (c', dg') \<and>
     map_of (coll_classes c') =
       (\<lambda>n. if n \<in> set names then map_option (sc_without a) (map_of (coll_classes c) n) else map_of (coll_classes c) n)"
proof -
  assume d: "distinct names" and s: "set names \<subseteq> fst ` set (coll_classes c)"
  from remove_app_loop_total [OF s] obtain cs' found' dg' where
    loop: "remove_app_loop a names (coll_classes c) False dg = Inr (cs', found', dg')" by blast
  with remove_app_loop_classes [OF loop d] show ?thesis
    by (auto simp: coll_remove_app_def fun_eq_iff)
qed

theorem remove_app_refines_witness:
  "distinct [''a'', ''b''] \<and> set [''a'', ''b''] \<subseteq> fst ` set (coll_classes (coll_init [(''a'', ex_class ''a'' [ex_inst ''X'' []]), (''b'', ex_class ''b'' [ex_inst ''X'' [''Y''], ex_inst ''Y'' []])])) \<and>
   (\<exists>c' dg'. coll_remove_app ''X'' [''a'', ''b''] (coll_init [(''a'', ex_class ''a'' [ex_inst ''X'' []]), (''b'', ex_class ''b'' [ex_inst ''X'' [''Y''], ex_inst ''Y'' []])]) diagnostics0 = Inr (c', dg') \<and>
     map_of (coll_classes c') =
       (\<lambda>n. if n \<in> set [''a'', ''b''] then map_option (sc_without ''X'') (map_of (coll_classes (coll_init [(''a'', ex_class ''a'' [ex_inst ''X'' []]), (''b'', ex_class ''b'' [ex_inst ''X'' [''Y''], ex_inst ''Y'' []])])) n)
            else map_of (coll_classes (coll_init [(''a'', ex_class ''a'' [ex_inst ''X'' []]), (''b'', ex_class ''b'' [ex_inst ''X'' [''Y''], ex_inst ''Y'' []])])) n))"
proof -
  have h1: "distinct [''a'', ''b'']" by simp
  have h2: "set [''a'', ''b''] \<subseteq> fst ` set (coll_classes (coll_init [(''a'', ex_class ''a'' [ex_inst ''X'' []]), (''b'', ex_class ''b'' [ex_inst ''X'' [''Y''], ex_inst ''Y'' []])]))"
    by (simp add: coll_init_def)
  from h1 h2 remove_app_refines [OF h1 h2] show ?thesis by blast
qed

text \<open>C26: saving a well-formed collection and loading the document back gives the collection \<open>__init__\<close> builds from the same server classes, with no message logged.\<close>

theorem save_load_roundtrip: "coll_wf c \<Longrightarrow> coll_load (coll_save c) dg = Inr (coll_init (coll_classes c), dg)"
  using load_loop_roundtrip [of "[]" "coll_classes c" dg]
  by (simp add: coll_wf_def coll_load_def coll_save_def json_members_obj classes_wf_def)

theorem save_load_roundtrip_witness:
  "coll_wf ex_coll \<and> coll_load (coll_save ex_coll) diagnostics0 = Inr (coll_init (coll_classes ex_coll), diagnostics0)"
proof -
  have h: "coll_wf ex_coll"
    by (simp add: ex_coll_def coll_init_def coll_wf_def classes_wf_def sc_wf_def apps_wf_def ex_class_def ex_inst_def)
  from save_load_roundtrip [OF h] h show ?thesis by blast
qed

text \<open>C27 (finding): an \<open>add\<close> action taken when any error has been logged before, by any earlier step, does nothing: it tests the process-wide error count, not the errors of this action.\<close>

theorem add_action_after_error:
  "0 < error_count dg \<Longrightarrow> act_action a = ''add'' \<Longrightarrow>
   coll_update_installation env a c dg = Inr (c, log_all (snd (env_load_source env (act_app_package a))) dg)"
  by (simp add: coll_update_installation_def case_prod_beta Let_def)

theorem add_action_after_error_witness:
  "0 < error_count (log (ErrMessage ''earlier'') diagnostics0) \<and> act_action (ex_action ''add'' ''X'' []) = ''add'' \<and>
   coll_update_installation (ex_env [''*'']) (ex_action ''add'' ''X'' []) ex_coll (log (ErrMessage ''earlier'') diagnostics0)
     = Inr (ex_coll, log (ErrMessage ''earlier'') diagnostics0)"
proof -
  have h1: "0 < error_count (log (ErrMessage ''earlier'') diagnostics0)" by simp
  have h2: "act_action (ex_action ''add'' ''X'' []) = ''add''" by (simp add: ex_action_def)
  from add_action_after_error [OF h1 h2, of "ex_env [''*'']" ex_coll] h1 h2 show ?thesis
    by (simp add: ex_env_def ex_action_def)
qed

text \<open>C28 (finding): \<open>update_app\<close> never raises, and it leaves a server class that the app targets but is not installed on untouched (it only warns).\<close>

theorem update_app_skips_targeted:
  "map_of (coll_classes c) n = Some sc \<Longrightarrow> map_of (sc_apps sc) (src_id src) = None \<Longrightarrow>
   targets (target_workloads env src) n \<Longrightarrow>
   \<exists>c' dg'. coll_update_app env src c dg = Inr (c', dg') \<and> map_of (coll_classes c') n = Some sc"
proof -
  assume sc: "map_of (coll_classes c) n = Some sc" and none: "map_of (sc_apps sc) (src_id src) = None"
    and tw: "targets (target_workloads env src) n"
  let ?st = "app_dependency_graph (env_dependency_sources env src) (coll_installed c)
               (env_repository_sources env src (coll_installed c)) dg src"
  show ?thesis
  proof (cases "error_count (gs_diag ?st) = 0")
    case True
    from update_loop_total [of "od_keys (coll_classes c)" "coll_classes c" env src ?st "coll_validate c" 0 "gs_diag ?st"]
    obtain cs' ec' dg' where
      loop: "foldM (update_step env src ?st (coll_validate c)) (coll_classes c, 0, gs_diag ?st) (od_keys (coll_classes c)) = Inr (cs', ec', dg')"
      by auto
    from update_loop_targeted [OF loop sc none tw] loop True show ?thesis
      by (simp add: coll_update_app_def Let_def)
  qed (use sc in \<open>simp add: coll_update_app_def Let_def\<close>)
qed

theorem update_app_skips_targeted_witness:
  "map_of (coll_classes (coll_init [(''sh'', ex_class ''sh'' []), (''idx'', ex_class ''idx'' [])])) ''sh'' = Some (ex_class ''sh'' []) \<and>
   map_of (sc_apps (ex_class ''sh'' [])) (src_id (ex_src ''X'' [])) = None \<and>
   targets (target_workloads (ex_env [''sh'']) (ex_src ''X'' [])) ''sh'' \<and>
   (\<exists>c' dg'. coll_update_app (ex_env [''sh'']) (ex_src ''X'' []) (coll_init [(''sh'', ex_class ''sh'' []), (''idx'', ex_class ''idx'' [])]) diagnostics0 = Inr (c', dg') \<and>
      map_of (coll_classes c') ''sh'' = Some (ex_class ''sh'' []))"
proof -
  have h1: "map_of (coll_classes (coll_init [(''sh'', ex_class ''sh'' []), (''idx'', ex_class ''idx'' [])])) ''sh'' = Some (ex_class ''sh'' [])"
    by (simp add: coll_init_def)
  have h2: "map_of (sc_apps (ex_class ''sh'' [])) (src_id (ex_src ''X'' [])) = None" by (simp add: ex_class_def)
  have h3: "targets (target_workloads (ex_env [''sh'']) (ex_src ''X'' [])) ''sh''"
    by (simp add: targets_def target_workloads_def ex_env_def)
  from update_app_skips_targeted [OF h1 h2 h3] h1 h2 h3 show ?thesis by blast
qed

text \<open>The other half of the inverted test in \<open>update_app\<close>: with targets [sh] and the app on
  neither server class, \<open>sh\<close> is skipped with a warning while the untargeted \<open>idx\<close>
  receives the app.\<close>

theorem update_app_untargeted:
  "(case coll_update_installation (ex_env [''sh'']) (ex_action ''update'' ''X'' [])
           (coll_init [(''sh'', ex_class ''sh'' []), (''idx'', ex_class ''idx'' [])]) diagnostics0 of
      Inr (c', dg') \<Rightarrow> map_of (coll_classes c') ''sh'' = Some (ex_class ''sh'' []) \<and>
                       map_of (sc_apps (the (map_of (coll_classes c') ''idx''))) ''X'' = Some (ex_inst ''X'' []) \<and>
                       dg_log dg' = [WarnUntargetedUpdate ''X'' ''sh'']
    | Inl _ \<Rightarrow> False)"
  by code_simp

text \<open>C29: \<open>add\<close> keeps every server class and creates server classes only for specifications whose name the app targets.\<close>

theorem add_only_targeted:
  "coll_add env src specs e c dg = Inr (c', dg') \<Longrightarrow>
   fst ` set (coll_classes c) \<subseteq> fst ` set (coll_classes c') \<and>
   fst ` set (coll_classes c') \<subseteq> fst ` set (coll_classes c) \<union> ds_name ` {s \<in> set specs. targets (target_workloads env src) (ds_name s)}"
proof -
  assume r: "coll_add env src specs e c dg = Inr (c', dg')"
  let ?st = "app_dependency_graph (env_dependency_sources env src) (coll_installed c)
               (env_repository_sources env src (coll_installed c)) dg src"
  show ?thesis
  proof (cases "error_count (gs_diag ?st) = 0")
    case True
    with r obtain cs ec where
      loop: "foldM (add_step env src ?st (coll_validate c) e) (coll_classes c, 0, gs_diag ?st) specs = Inr (cs, ec, dg')"
      and c': "c' = c\<lparr>coll_classes := cs\<rparr>"
      by (auto simp: coll_add_def Let_def split: sum.splits prod.splits)
    from add_loop_keys [OF loop] c' show ?thesis by auto
  next
    case False
    with r show ?thesis by (simp add: coll_add_def Let_def)
  qed
qed

theorem add_only_targeted_witness:
  "\<exists>c' dg'. coll_add (ex_env [''sh'']) (ex_src ''X'' []) [spec_plain ''sh'' {''search_head''}, spec_plain ''idx'' {''indexer''}] False ex_coll diagnostics0 = Inr (c', dg') \<and>
     fst ` set (coll_classes ex_coll) \<subseteq> fst ` set (coll_classes c') \<and>
     fst ` set (coll_classes c') \<subseteq> fst ` set (coll_classes ex_coll) \<union> ds_name ` {s \<in> set [spec_plain ''sh'' {''search_head''}, spec_plain ''idx'' {''indexer''}]. targets (target_workloads (ex_env [''sh'']) (ex_src ''X'' [])) (ds_name s)}"
proof -
  have h: "coll_add (ex_env [''sh'']) (ex_src ''X'' []) [spec_plain ''sh'' {''search_head''}, spec_plain ''idx'' {''indexer''}] False ex_coll diagnostics0
           = Inr (projr (coll_add (ex_env [''sh'']) (ex_src ''X'' []) [spec_plain ''sh'' {''search_head''}, spec_plain ''idx'' {''indexer''}] False ex_coll diagnostics0))"
    by code_simp
  obtain c' dg' where "projr (coll_add (ex_env [''sh'']) (ex_src ''X'' []) [spec_plain ''sh'' {''search_head''}, spec_plain ''idx'' {''indexer''}] False ex_coll diagnostics0) = (c', dg')"
    by fastforce
  with h add_only_targeted [of "ex_env [''sh'']" "ex_src ''X'' []" "[spec_plain ''sh'' {''search_head''}, spec_plain ''idx'' {''indexer''}]" False ex_coll diagnostics0 c' dg']
  show ?thesis by auto
qed

lemma set_removal_list_classes:
  "distinct (set_removal_list app cs specs) \<and> set (set_removal_list app cs specs) \<subseteq> fst ` set cs"
proof -
  let ?S = "set [name. (name, sc) \<leftarrow> cs, map_of (sc_apps sc) app \<noteq> None] - set (map ds_name specs)"
  have fin: "finite ?S" by (rule finite_Diff [OF finite_set])
  have "set [name. (name, sc) \<leftarrow> cs, map_of (sc_apps sc) app \<noteq> None] \<subseteq> fst ` set cs"
    by (induction cs) auto
  then have "?S \<subseteq> fst ` set cs" by blast
  then show ?thesis
    unfolding set_removal_list_def by (simp only: set_sorted_list_of_set [OF fin] distinct_sorted_list_of_set)
qed

text \<open>C30 (finding): the \<open>set\<close> action is not atomic.  When the app cannot be taken off one
  of the server classes of the removal list because another app depends on it there, the
  error is logged, the removals from the other server classes of the list stay done, and
  no server class of the new specifications is added: the collection is exactly what
  \<open>remove_app\<close> made of it.\<close>

theorem set_action_partial:
  assumes "act_action a = ''set''" "env_load_source env (act_app_package a) = (src, ms)"
    and "error_count (log_all ms dg) = 0"
    and "get_deployment_specifications (act_deployment_packages a) (act_combine a) (act_workloads a) (log_all ms dg) = (Inr specs, dg2)"
    and "error_count dg2 = 0"
    and "n \<in> set (set_removal_list (src_id src) (coll_classes c) specs)"
    and "map_of (coll_classes c) n = Some sc" "map_of (sc_apps sc) (src_id src) = Some i" "inst_dependents i \<noteq> []"
  shows "\<exists>c' dg'. coll_update_installation env a c dg = Inr (c', dg') \<and>
     map_of (coll_classes c') =
       (\<lambda>m. if m \<in> set (set_removal_list (src_id src) (coll_classes c) specs)
            then map_option (sc_without (src_id src)) (map_of (coll_classes c) m) else map_of (coll_classes c) m) \<and>
     ErrStillRequired (src_id src) (inst_dependents i) \<in> set (dg_log dg')"
proof -
  let ?rl = "set_removal_list (src_id src) (coll_classes c) specs"
  have d: "distinct ?rl" and s: "set ?rl \<subseteq> fst ` set (coll_classes c)"
    using set_removal_list_classes by blast+
  obtain cs' found' dg3 where
    loop: "remove_app_loop (src_id src) ?rl (coll_classes c) False dg2 = Inr (cs', found', dg3)"
    using remove_app_loop_total [OF s] by blast
  have err: "ErrStillRequired (src_id src) (inst_dependents i) \<in> set (dg_log dg3)"
    using remove_app_loop_blocked [OF loop assms(6-9)] .
  let ?dg' = "if found' then dg3 else log (WarnNotInstalled (src_id src)) dg3"
  have err': "ErrStillRequired (src_id src) (inst_dependents i) \<in> set (dg_log ?dg')"
    using err by (simp add: log_def)
  have "coll_update_installation env a c dg = Inr (c\<lparr>coll_classes := cs'\<rparr>, ?dg')"
    using assms(1-5) loop error_in_log [OF err'] by (simp add: coll_update_installation_def coll_remove_app_def)
  moreover have "map_of cs' = (\<lambda>m. if m \<in> set ?rl then map_option (sc_without (src_id src)) (map_of (coll_classes c) m)
                                   else map_of (coll_classes c) m)"
    using remove_app_loop_classes [OF loop d] by (simp add: fun_eq_iff)
  ultimately show ?thesis using err' by simp
qed

theorem set_action_partial_witness:
  "\<exists>c' dg'. coll_update_installation (ex_env [''*'']) (ex_action ''set'' ''X'' [spec_plain ''idx'' {''indexer''}])
       (coll_init [(''a'', ex_class ''a'' [ex_inst ''X'' []]), (''b'', ex_class ''b'' [ex_inst ''X'' [''Y''], ex_inst ''Y'' []])]) diagnostics0 = Inr (c', dg') \<and>
     map_of (coll_classes c') =
       (\<lambda>m. if m \<in> set (set_removal_list ''X'' (coll_classes (coll_init [(''a'', ex_class ''a'' [ex_inst ''X'' []]), (''b'', ex_class ''b'' [ex_inst ''X'' [''Y''], ex_inst ''Y'' []])])) [spec_plain ''idx'' {''indexer''}, spec_plain ''_search_heads'' {''searchHead''}])
            then map_option (sc_without ''X'') (map_of (coll_classes (coll_init [(''a'', ex_class ''a'' [ex_inst ''X'' []]), (''b'', ex_class ''b'' [ex_inst ''X'' [''Y''], ex_inst ''Y'' []])])) m)
            else map_of (coll_classes (coll_init [(''a'', ex_class ''a'' [ex_inst ''X'' []]), (''b'', ex_class ''b'' [ex_inst ''X'' [''Y''], ex_inst ''Y'' []])])) m) \<and>
     ErrStillRequired ''X'' [''Y''] \<in> set (dg_log dg')"
proof -
  have e0: "error_count diagnostics0 = 0" by (simp add: diagnostics0_def error_count_def)
  have rl: "set_removal_list ''X'' (coll_classes (coll_init [(''a'', ex_class ''a'' [ex_inst ''X'' []]), (''b'', ex_class ''b'' [ex_inst ''X'' [''Y''], ex_inst ''Y'' []])])) [spec_plain ''idx'' {''indexer''}, spec_plain ''_search_heads'' {''searchHead''}] = [''a'', ''b'']"
    by code_simp
  have gds: "get_deployment_specifications [spec_plain ''idx'' {''indexer''}] False None (log_all [] diagnostics0)
     = (Inr [spec_plain ''idx'' {''indexer''}, spec_plain ''_search_heads'' {''searchHead''}], diagnostics0)"
    by (simp add: get_deployment_specifications_def gds_separate_def spec_plain_def Let_def default_specs_def
        insert_Diff_if)
  have src: "src_id (ex_src ''X'' []) = ''X''" "inst_dependents (ex_inst ''X'' [''Y'']) = [''Y'']"
    by (simp_all add: ex_src_def ex_inst_def)
  show ?thesis
    using gds rl e0 set_action_partial [where ms = "[]" and n = "''b''" and sc = "ex_class ''b'' [ex_inst ''X'' [''Y''], ex_inst ''Y'' []]"
        and i = "ex_inst ''X'' [''Y'']" and src = "ex_src ''X'' []" and a = "ex_action ''set'' ''X'' [spec_plain ''idx'' {''indexer''}]" and env = "ex_env [''*'']"
        and c = "coll_init [(''a'', ex_class ''a'' [ex_inst ''X'' []]), (''b'', ex_class ''b'' [ex_inst ''X'' [''Y''], ex_inst ''Y'' []])]" and dg = diagnostics0 and specs = "[spec_plain ''idx'' {''indexer''}, spec_plain ''_search_heads'' {''searchHead''}]"]
    unfolding src
    by (simp add: ex_action_def ex_env_def ex_class_def ex_inst_def coll_init_def)
qed

end
