(* ===== verification/DeploymentPackage.thy ===== *)
theory DeploymentPackage
  imports DeploymentSpec
begin

text \<open>
  \<open>AppDeploymentPackage\<close> of src/slim/app/_deployment.py: the package identifiers, the
  partition of an app's configuration by packaging rules, the exclusion of assets by the
  workload's exclusion rules over the \<open>os.walk\<close> of the app directory, the pruning of empty
  directories and the test for an empty package.  The \<open>posixpath\<close> functions it calls are
  modelled after the library; the app directory is a tree of \<open>fs_entry\<close> values, and the
  packaging rules (defined outside src/) are parameters.  Writing the archive is I/O.
\<close>


section \<open>POSIX paths\<close>

text \<open>The functions of \<open>posixpath\<close> the package code calls.\<close>

definition path_join :: "string \<Rightarrow> string \<Rightarrow> string" where
  "path_join a b =
     (if take 1 b = ''/'' then b
      else if a = [] \<or> last a = CHR ''/'' then a @ b
      else a @ CHR ''/'' # b)"

definition all_slashes :: "string \<Rightarrow> bool" where
  "all_slashes s \<longleftrightarrow> (\<forall>c \<in> set s. c = CHR ''/'')"

definition path_dirname :: "string \<Rightarrow> string" where
  "path_dirname p =
     (let head = take (length p - length (takeWhile (\<lambda>c. c \<noteq> CHR ''/'') (rev p))) p in
      if head \<noteq> [] \<and> \<not> all_slashes head then rev (dropWhile (\<lambda>c. c = CHR ''/'') (rev head)) else head)"

fun split_slash :: "string \<Rightarrow> string list" where
  "split_slash [] = [[]]"
| "split_slash (c # cs) =
     (if c = CHR ''/'' then [] # split_slash cs
      else (case split_slash cs of w # ws \<Rightarrow> (c # w) # ws | [] \<Rightarrow> [[c]]))"

fun join_slash :: "string list \<Rightarrow> string" where
  "join_slash [] = []"
| "join_slash [w] = w"
| "join_slash (w # ws) = w @ CHR ''/'' # join_slash ws"

text \<open>The component loop of \<open>normpath\<close>.\<close>

fun norm_comps :: "nat \<Rightarrow> string list \<Rightarrow> string list \<Rightarrow> string list" where
  "norm_comps init new [] = new"
| "norm_comps init new (w # ws) =
     (if w = [] \<or> w = ''.'' then norm_comps init new ws
      else if w \<noteq> ''..'' \<or> (init = 0 \<and> new = []) \<or> (new \<noteq> [] \<and> last new = ''..'')
      then norm_comps init (new @ [w]) ws
      else if new \<noteq> [] then norm_comps init (butlast new) ws
      else norm_comps init new ws)"

definition path_normpath :: "string \<Rightarrow> string" where
  "path_normpath p =
     (if p = [] then ''.''
      else
        (let init = (if take 1 p = ''/'' then (if take 2 p = ''//'' \<and> take 3 p \<noteq> ''///'' then 2 else 1) else 0);
             q = replicate init (CHR ''/'') @ join_slash (norm_comps init [] (split_slash p))
         in if q = [] then ''.'' else q))"

fun join_sep :: "char \<Rightarrow> string list \<Rightarrow> string" where
  "join_sep c [] = []"
| "join_sep c [w] = w"
| "join_sep c (w # ws) = w @ c # join_sep c ws"

fun common_prefix :: "string \<Rightarrow> string \<Rightarrow> string" where
  "common_prefix (a # as) (b # bs) = (if a = b then a # common_prefix as bs else [])"
| "common_prefix _ _ = []"

text \<open>\<open>fnmatch.fnmatch\<close> for patterns built from literal characters, \<open>*\<close> and \<open>?\<close>, the only
  kinds the exclusion rules use.\<close>

fun glob_match :: "string \<Rightarrow> string \<Rightarrow> bool" where
  "glob_match [] s = (s = [])"
| "glob_match (p # ps) s =
     (if p = CHR ''*'' then (\<exists>i \<in> {0..length s}. glob_match ps (drop i s))
      else (case s of [] \<Rightarrow> False | c # cs \<Rightarrow> (p = CHR ''?'' \<or> p = c) \<and> glob_match ps cs))"

text \<open>\<open>AppDeploymentPackage._split_filename\<close> (lines 799--806): \<open>path.split\<close> until the
  name is empty, the components last first.  On a name of slashes only it does not return.\<close>

definition path_tail :: "string \<Rightarrow> string" where
  "path_tail p = rev (takeWhile (\<lambda>c. c \<noteq> CHR ''/'') (rev p))"

partial_function (option) split_filename :: "string \<Rightarrow> string list option" where
  "split_filename f =
     (if f = [] then Some []
      else Option.bind (split_filename (path_dirname f)) (\<lambda>parts. Some (path_tail f # parts)))"

declare split_filename.simps [code]

section \<open>The app's files and configuration\<close>

text \<open>The directory of an app as \<open>os.walk\<close> lists it, and the configuration objects of
  \<open>AppSource.configuration\<close>: files of sections (a section is one .conf file on disk) of
  stanzas of settings.\<close>

datatype fs_entry = FsFile string | FsDir string "fs_entry list"

record conf_setting =
  setting_name :: string
  setting_value :: string

record conf_stanza =
  stanza_name :: string
  stanza_settings :: "conf_setting list"

record conf_section =
  section_name :: string
  section_stanzas :: "conf_stanza list"

record conf_file =
  conf_name :: string
  conf_sections :: "conf_section list"

text \<open>The attributes of \<open>AppSource\<close> the package reads: the app directory, its manifest's
  id and the texts of its license, privacy policy and release notes (\<open>None\<close> when the item
  or its text is missing), the configuration and the directory's entries.\<close>

record package_source =
  ps_directory :: string
  ps_group :: "string option"
  ps_name :: "string option"
  ps_version :: string
  ps_documents :: "string option list"
  ps_configuration :: "conf_file list"
  ps_tree :: "fs_entry list"

text \<open>A packaging rule (\<open>DefaultPackagingRule\<close>, \<open>InputsPackagingRule\<close>), defined outside
  src/: whether to keep a setting, and a stanza given the settings kept.\<close>

record packaging_rule =
  should_include_setting :: "conf_stanza \<Rightarrow> conf_setting \<Rightarrow> deployment_spec \<Rightarrow> bool"
  should_include_stanza :: "conf_stanza \<Rightarrow> (string, conf_setting) odict \<Rightarrow> deployment_spec \<Rightarrow> bool"

type_synonym package_configuration =
  "(string, (string, (string, (string, conf_setting) odict) odict) odict) odict"

section \<open>AppDeploymentPackage\<close>

subsection \<open>Identifiers\<close>

text \<open>Lines 473--478: \<open>'-'.join\<close> of group, name and version, leaving out a missing group.\<close>

definition package_name :: "package_source \<Rightarrow> string" where
  "package_name src =
     join_sep (CHR ''-'')
       ((case ps_group src of None \<Rightarrow> [] | Some g \<Rightarrow> [g]) @
        [case ps_name src of None \<Rightarrow> ps_directory src | Some n \<Rightarrow> n, ps_version src])"

definition stage_name :: "package_source \<Rightarrow> deployment_spec \<Rightarrow> string" where
  "stage_name src spec = package_name src @ CHR ''-'' # ds_name spec"

definition archive_name :: "package_source \<Rightarrow> deployment_spec \<Rightarrow> string" where
  "archive_name src spec = stage_name src spec @ ''.tar.gz''"

subsection \<open>Configuration partitioning\<close>

text \<open>Lines 485--507.  The file name of a section is its path relative to the app root.\<close>

definition partition_stanza ::
  "packaging_rule \<Rightarrow> deployment_spec \<Rightarrow> (string, (string, conf_setting) odict) odict \<Rightarrow> conf_stanza \<Rightarrow>
   (string, (string, conf_setting) odict) odict" where
  "partition_stanza rule spec stanzas st =
     (let settings = foldl (\<lambda>m s. if should_include_setting rule st s spec then od_set (setting_name s) s m else m)
                       [] (stanza_settings st)
      in if should_include_stanza rule st settings spec then od_set (stanza_name st) settings stanzas else stanzas)"

definition partition_section ::
  "string \<Rightarrow> packaging_rule \<Rightarrow> deployment_spec \<Rightarrow> (string, (string, (string, conf_setting) odict) odict) odict \<Rightarrow>
   conf_section \<Rightarrow> (string, (string, (string, conf_setting) odict) odict) odict" where
  "partition_section root rule spec files sec =
     (let stanzas = foldl (partition_stanza rule spec) [] (section_stanzas sec) in
      if stanzas \<noteq> []
      then od_set (drop (length (common_prefix root (section_name sec)) + 1) (section_name sec)) stanzas files
      else files)"

definition partition_configuration ::
  "packaging_rule \<Rightarrow> packaging_rule \<Rightarrow> string \<Rightarrow> deployment_spec \<Rightarrow> conf_file list \<Rightarrow> package_configuration" where
  "partition_configuration inputs_rule default_rule root spec confs =
     foldl (\<lambda>m cf.
        let rule = (if conf_name cf = ''inputs'' then inputs_rule else default_rule);
            files = foldl (partition_section root rule spec) [] (conf_sections cf)
        in if files \<noteq> [] then od_set (conf_name cf) files m else m) [] confs"

subsection \<open>Asset exclusion\<close>

text \<open>A pattern component: a file-name pattern, or the method \<open>_exclude_conf_spec\<close>.\<close>

datatype name_pattern = Glob string | ExcludeConfSpec

text \<open>\<open>AppDeploymentPackage._exclusion_rule\<close> (lines 663--673).\<close>

definition exclusion_rule :: "(name_pattern list \<times> string set) list" where
  "exclusion_rule =
     [([Glob ''app.manifest''], {''forwarder'', ''indexer'', ''searchHead''}),
      ([Glob ''appserver''], {''forwarder'', ''indexer''}),
      ([Glob ''lookups''], {''forwarder'', ''indexer''}),
      ([Glob ''static''], {''forwarder'', ''indexer''}),
      ([Glob ''default'', Glob ''data''], {''forwarder'', ''indexer''}),
      ([Glob ''default'', Glob ''*.conf''], {''forwarder'', ''indexer'', ''searchHead''}),
      ([Glob ''local'', Glob ''*.conf''], {''forwarder'', ''indexer'', ''searchHead''}),
      ([Glob ''metadata'', Glob ''local.meta''], {''forwarder'', ''indexer'', ''searchHead''}),
      ([Glob ''README'', ExcludeConfSpec], {''forwarder'', ''indexer'', ''searchHead''})]"

text \<open>Lines 512--517: the patterns whose excluded roles cover the whole workload.\<close>

definition exclusion_patterns :: "deployment_spec \<Rightarrow> name_pattern list list" where
  "exclusion_patterns spec = [p. (p, roles) \<leftarrow> exclusion_rule, ds_workload spec - roles = {}]"

text \<open>\<open>_exclude_conf_spec\<close> (lines 657--661).\<close>

definition exclude_conf_spec :: "package_configuration \<Rightarrow> string \<Rightarrow> bool" where
  "exclude_conf_spec conf f =
     (let suffix = ''.conf.spec'' in
      if length suffix \<le> length f \<and> drop (length f - length suffix) f = suffix
      then take (length f - length suffix) f \<notin> fst ` set conf
      else False)"

text \<open>\<open>_get_match_function\<close> (lines 746--754).\<close>

fun match_function :: "package_configuration \<Rightarrow> name_pattern \<Rightarrow> string \<Rightarrow> bool" where
  "match_function conf (Glob p) f = glob_match p f"
| "match_function conf ExcludeConfSpec f = exclude_conf_spec conf f"

fun pattern_matches :: "string list \<Rightarrow> name_pattern list \<Rightarrow> bool" where
  "pattern_matches (d # ds) (Glob p # ps) = (glob_match p d \<and> pattern_matches ds ps)"
| "pattern_matches (d # ds) (ExcludeConfSpec # ps) = False"
| "pattern_matches _ _ = True"

text \<open>\<open>_get_excluded_filenames\<close> (lines 718--744): \<open>root\<close> holds the components of the
  directory, last first; a pattern one longer than it whose leading components match the
  directory contributes the match function of its last component.\<close>

definition excluded_filenames ::
  "package_configuration \<Rightarrow> string list \<Rightarrow> string list \<Rightarrow> name_pattern list list \<Rightarrow> string list" where
  "excluded_filenames conf root names pats =
     (let candidates = [last p. p \<leftarrow> pats, length p = length root + 1 \<and> pattern_matches (rev root) p]
      in if candidates = [] then [] else [f \<leftarrow> names. \<exists>c \<in> set candidates. match_function conf c f])"

subsection \<open>The asset files\<close>

fun fs_dir_names :: "fs_entry list \<Rightarrow> string list" where
  "fs_dir_names [] = []"
| "fs_dir_names (FsDir n _ # es) = n # fs_dir_names es"
| "fs_dir_names (FsFile _ # es) = fs_dir_names es"

fun fs_file_names :: "fs_entry list \<Rightarrow> string list" where
  "fs_file_names [] = []"
| "fs_file_names (FsFile n # es) = n # fs_file_names es"
| "fs_file_names (FsDir _ _ # es) = fs_file_names es"

text \<open>\<open>set.add\<close> on a set kept as a list without repetitions.\<close>

definition set_add :: "'a \<Rightarrow> 'a list \<Rightarrow> 'a list" where
  "set_add x xs = (if x \<in> set xs then xs else xs @ [x])"

text \<open>The body of the \<open>os.walk\<close> loop of \<open>_set_asset_filenames\<close> (lines 767--782) for one
  directory \<open>root\<close> with entries \<open>es\<close>: the directory names kept, the asset set and the
  file counts.\<close>

definition walk_top ::
  "package_configuration \<Rightarrow> name_pattern list list \<Rightarrow> string \<Rightarrow> string \<Rightarrow> fs_entry list \<Rightarrow>
   string list \<times> (string, int) odict \<Rightarrow> (py_error + string list \<times> string list \<times> (string, int) odict) option" where
  "walk_top conf pats app_root root es acc =
     (case acc of (assets, counts) \<Rightarrow>
       Option.bind (split_filename (drop (length (common_prefix app_root root) + 1) root)) (\<lambda>sub.
         (let dnames = fs_dir_names es;
              dkept = (if dnames \<noteq> [] then foldl (\<lambda>l n. remove1 n l) dnames (excluded_filenames conf sub dnames pats) else dnames);
              assets1 = foldl (\<lambda>a n. set_add (path_join root n) a) assets dkept;
              counts1 = foldl (\<lambda>c n. od_set (path_join root n) 0 c) counts dkept;
              fnames = fs_file_names es;
              fkept = (if fnames \<noteq> [] then foldl (\<lambda>l n. remove1 n l) fnames (excluded_filenames conf sub fnames pats) else fnames);
              assets2 = foldl (\<lambda>a n. set_add (path_join root n) a) assets1 fkept
          in case map_of counts1 root of
               None \<Rightarrow> Some (Inl KeyError)
             | Some k \<Rightarrow> Some (Inr (dkept, assets2, od_set root (k + int (length dkept + length fkept)) counts1)))))"

text \<open>\<open>os.walk(app_root, topdown=True)\<close>: a directory, then the kept subdirectories in the order
  listed (names in a directory are distinct).\<close>

function walk_dir ::
  "package_configuration \<Rightarrow> name_pattern list list \<Rightarrow> string \<Rightarrow> string \<Rightarrow> fs_entry list \<Rightarrow>
   string list \<times> (string, int) odict \<Rightarrow> (py_error + string list \<times> (string, int) odict) option"
and walk_subdirs ::
  "package_configuration \<Rightarrow> name_pattern list list \<Rightarrow> string \<Rightarrow> string \<Rightarrow> string list \<Rightarrow> fs_entry list \<Rightarrow>
   string list \<times> (string, int) odict \<Rightarrow> (py_error + string list \<times> (string, int) odict) option" where
  "walk_dir conf pats app_root root es acc =
     (case walk_top conf pats app_root root es acc of
        None \<Rightarrow> None
      | Some (Inl e) \<Rightarrow> Some (Inl e)
      | Some (Inr (dkept, acc')) \<Rightarrow> walk_subdirs conf pats app_root root dkept es acc')"
| "walk_subdirs conf pats app_root root dkept [] acc = Some (Inr acc)"
| "walk_subdirs conf pats app_root root dkept (FsFile n # es) acc = walk_subdirs conf pats app_root root dkept es acc"
| "walk_subdirs conf pats app_root root dkept (FsDir n cs # es) acc =
     (if n \<notin> set dkept then walk_subdirs conf pats app_root root dkept es acc
      else (case walk_dir conf pats app_root (path_join root n) cs acc of
              None \<Rightarrow> None
            | Some (Inl e) \<Rightarrow> Some (Inl e)
            | Some (Inr acc') \<Rightarrow> walk_subdirs conf pats app_root root dkept es acc'))"
  by pat_completeness auto
termination
  by (relation "measure (\<lambda>x. case x of Inl (_, _, _, _, es, _) \<Rightarrow> 2 * size_list size es + 1
                                   | Inr (_, _, _, _, _, es, _) \<Rightarrow> 2 * size_list size es)") auto

text \<open>The loop over \<open>empty_directories\<close> (lines 784--794): an empty directory leaves the
  asset set, and its parent is queued once its count drops to zero.\<close>

function prune_empty :: "string list \<Rightarrow> (string, int) odict \<Rightarrow> string list \<Rightarrow> py_error + string list" where
  "prune_empty [] counts assets = Inr assets"
| "prune_empty (name # queue) counts assets =
     (if name \<notin> set assets then Inl KeyError
      else (let assets' = removeAll name assets in
            if assets' = [] then Inr assets'
            else (let parent = path_dirname name in
                  case map_of counts parent of
                    None \<Rightarrow> Inl KeyError
                  | Some k \<Rightarrow> prune_empty (if k - 1 \<le> 0 then queue @ [parent] else queue)
                                (od_set parent (k - 1) counts) assets')))"
  by pat_completeness auto
termination
  by (relation "measure (\<lambda>(_, _, assets). length assets)") (auto simp: length_removeAll_less)

text \<open>\<open>_set_asset_filenames\<close> (lines 759--796).\<close>

definition set_asset_filenames ::
  "package_configuration \<Rightarrow> name_pattern list list \<Rightarrow> string \<Rightarrow> fs_entry list \<Rightarrow> (py_error + string list) option" where
  "set_asset_filenames conf pats app_root es =
     (case walk_dir conf pats app_root app_root es ([], [(app_root, 0)]) of
        None \<Rightarrow> None
      | Some (Inl e) \<Rightarrow> Some (Inl e)
      | Some (Inr (assets, counts)) \<Rightarrow> Some (prune_empty [n. (n, k) \<leftarrow> counts, k = 0] counts assets))"

subsection \<open>Empty packages\<close>

text \<open>The \<open>while len(filename) > 0\<close> loop of \<open>_detect_is_empty\<close> (lines 648--651).\<close>

partial_function (option) doc_paths :: "string \<Rightarrow> string \<Rightarrow> string list \<Rightarrow> string list option" where
  "doc_paths root f acc =
     (if f = [] then Some acc else doc_paths root (path_dirname f) (acc @ [path_normpath (path_join root f)]))"

declare doc_paths.simps [code]

fun docs_paths :: "string \<Rightarrow> string option list \<Rightarrow> string list \<Rightarrow> string list option" where
  "docs_paths root [] acc = Some acc"
| "docs_paths root (None # ds) acc = docs_paths root ds acc"
| "docs_paths root (Some t # ds) acc = Option.bind (doc_paths root (path_normpath t) acc) (docs_paths root ds)"

text \<open>\<open>_detect_is_empty\<close> (lines 618--655); \<open>None\<close> when it does not return.\<close>

definition detect_is_empty :: "package_source \<Rightarrow> string list \<Rightarrow> package_configuration \<Rightarrow> bool option" where
  "detect_is_empty src assets conf =
     (if conf = [] \<or> (length conf = 1 \<and> ''app'' \<in> fst ` set conf) then
        (if assets = [] then Some True
         else (let root = ps_directory src;
                   app_bin = path_join root ''bin'';
                   base = [path_join root ''metadata'', path_join (path_join root ''metadata'') ''default.meta''] @
                          [a \<leftarrow> assets. take (length app_bin) a = app_bin]
               in map_option (\<lambda>empty_set. set assets \<subseteq> set empty_set) (docs_paths root (ps_documents src) base)))
      else Some False)"

subsection \<open>The constructor\<close>

record deployment_package =
  dp_name :: string
  dp_stage_name :: string
  dp_archive_name :: string
  dp_configuration :: package_configuration
  dp_app_root :: string
  dp_asset_filenames :: "string list"
  dp_is_empty :: bool

text \<open>\<open>AppDeploymentPackage.__init__\<close> (lines 465--522), with the packaging rule of
  inputs.conf and the default rule; \<open>None\<close> when it does not return.\<close>

definition app_deployment_package ::
  "packaging_rule \<Rightarrow> packaging_rule \<Rightarrow> package_source \<Rightarrow> deployment_spec \<Rightarrow> (py_error + deployment_package) option" where
  "app_deployment_package inputs_rule default_rule src spec =
     (let conf = partition_configuration inputs_rule default_rule (ps_directory src) spec (ps_configuration src)
      in case set_asset_filenames conf (exclusion_patterns spec) (ps_directory src) (ps_tree src) of
           None \<Rightarrow> None
         | Some (Inl e) \<Rightarrow> Some (Inl e)
         | Some (Inr assets) \<Rightarrow>
             map_option (\<lambda>empty.
               Inr \<lparr>dp_name = package_name src, dp_stage_name = stage_name src spec,
                    dp_archive_name = archive_name src spec, dp_configuration = conf,
                    dp_app_root = ps_directory src, dp_asset_filenames = assets, dp_is_empty = empty\<rparr>)
               (detect_is_empty src assets conf))"


section \<open>Scenarios\<close>

definition ex_rule :: packaging_rule where
  "ex_rule = \<lparr>should_include_setting = (\<lambda>_ _ _. True), should_include_stanza = (\<lambda>_ _ _. True)\<rparr>"

definition ex_psrc :: "string option list \<Rightarrow> conf_file list \<Rightarrow> fs_entry list \<Rightarrow> package_source" where
  "ex_psrc docs confs tree =
     \<lparr>ps_directory = ''apps/ex'', ps_group = None, ps_name = Some ''ex'', ps_version = ''1.0.0'',
      ps_documents = docs, ps_configuration = confs, ps_tree = tree\<rparr>"

definition ex_setting :: conf_setting where
  "ex_setting = \<lparr>setting_name = ''index'', setting_value = ''main''\<rparr>"

definition ex_confs :: "conf_file list" where
  "ex_confs = [\<lparr>conf_name = ''inputs'', conf_sections =
                [\<lparr>section_name = ''apps/ex/default/inputs.conf'',
                  section_stanzas = [\<lparr>stanza_name = ''monitor://x'', stanza_settings = [ex_setting]\<rparr>]\<rparr>]\<rparr>]"

section \<open>Lemmas\<close>


lemma rev_dropWhile_rev: "rev (dropWhile Q (rev xs)) = take (length xs - length (takeWhile Q (rev xs))) xs"
  by (metis append_take_drop_id length_append length_rev rev_append rev_rev_ident takeWhile_dropWhile_id
        diff_add_inverse2 append_eq_conv_conj)

lemma dirname_take: "\<exists>k. path_dirname p = take k p"
proof -
  define head where "head = take (length p - length (takeWhile (\<lambda>c. c \<noteq> CHR ''/'') (rev p))) p"
  have "\<exists>k. rev (dropWhile (\<lambda>c. c = CHR ''/'') (rev head)) = take k p"
    unfolding rev_dropWhile_rev head_def by (metis take_take)
  then show ?thesis unfolding path_dirname_def Let_def head_def [symmetric]
    by (metis head_def)
qed

lemma dirname_take1: "path_dirname p \<noteq> [] \<Longrightarrow> take 1 (path_dirname p) = take 1 p"
proof -
  assume ne: "path_dirname p \<noteq> []"
  obtain k where k: "path_dirname p = take k p" using dirname_take by blast
  with ne have "0 < k" by (cases k) auto
  with k show ?thesis by (simp add: min_def)
qed

lemma dirname_relative: "take 1 p \<noteq> ''/'' \<Longrightarrow> take 1 (path_dirname p) \<noteq> ''/''"
proof (cases "path_dirname p = []")
  case False
  from dirname_take1 [OF False] show "take 1 p \<noteq> ''/'' \<Longrightarrow> ?thesis" by simp
qed simp

lemma takeWhile_shorter: "\<exists>x \<in> set xs. \<not> P x \<Longrightarrow> length (takeWhile P xs) < length xs"
  by (induction xs) auto

lemma dirname_absolute: "take 1 p = ''/'' \<Longrightarrow> take 1 (path_dirname p) = ''/''"
proof -
  assume h: "take 1 p = ''/''"
  then obtain rest where p: "p = CHR ''/'' # rest" by (cases p) auto
  define T where "T = takeWhile (\<lambda>c. c \<noteq> CHR ''/'') (rev p)"
  have "length T < length p" unfolding T_def
    using takeWhile_shorter [of "rev p" "\<lambda>c. c \<noteq> CHR ''/''"] p by simp
  then have hne: "take (length p - length T) p \<noteq> []" and h1: "take 1 (take (length p - length T) p) = ''/''"
    using p by (auto simp: min_def)
  have "path_dirname p \<noteq> []"
  proof (cases "all_slashes (take (length p - length T) p)")
    case True with hne show ?thesis by (simp add: path_dirname_def T_def [symmetric])
  next
    case False
    then have "\<exists>c \<in> set (rev (take (length p - length T) p)). c \<noteq> CHR ''/''" by (auto simp: all_slashes_def)
    then have "dropWhile (\<lambda>c. c = CHR ''/'') (rev (take (length p - length T) p)) \<noteq> []"
      by (metis (mono_tags, lifting) dropWhile_eq_Nil_conv)
    with False hne show ?thesis by (simp add: path_dirname_def T_def [symmetric])
  qed
  then show ?thesis using dirname_take1 h by simp
qed

lemma dirname_shorter: "p \<noteq> [] \<Longrightarrow> take 1 p \<noteq> ''/'' \<Longrightarrow> length (path_dirname p) < length p"
proof -
  assume ne: "p \<noteq> []" and rel: "take 1 p \<noteq> ''/''"
  define T where "T = takeWhile (\<lambda>c. c \<noteq> CHR ''/'') (rev p)"
  show ?thesis
  proof (cases "T = []")
    case False
    then have "length p - length T < length p" using ne by (simp add: T_def)
    moreover obtain k where "path_dirname p = take k (take (length p - length T) p)"
    proof -
      have "\<exists>k. rev (dropWhile (\<lambda>c. c = CHR ''/'') (rev (take (length p - length T) p))) = take k (take (length p - length T) p)"
        by (simp only: rev_dropWhile_rev) blast
      then show ?thesis using that unfolding path_dirname_def Let_def T_def [symmetric]
        by (metis take_all order_refl)
    qed
    ultimately show ?thesis by (simp add: min_def split: if_splits)
  next
    case True
    then have lastslash: "hd (rev p) = CHR ''/''" using ne unfolding T_def
      by (cases "rev p") (auto split: if_splits)
    have hd0: "hd p \<noteq> CHR ''/''" using rel ne by (cases p) auto
    have head: "take (length p - length T) p = p" using True by simp
    have nall: "\<not> all_slashes p" using hd0 ne by (cases p) (auto simp: all_slashes_def)
    have "length (takeWhile (\<lambda>c. c = CHR ''/'') (rev p)) > 0"
      using lastslash ne by (cases "rev p") auto
    then have "length (rev (dropWhile (\<lambda>c. c = CHR ''/'') (rev p))) < length p"
      using ne by (simp only: rev_dropWhile_rev length_take) simp
    with head nall ne show ?thesis by (simp add: path_dirname_def T_def [symmetric])
  qed
qed

lemma doc_paths_relative: "take 1 f \<noteq> ''/'' \<Longrightarrow> \<exists>r. doc_paths root f acc = Some r"
proof (induction "length f" arbitrary: f acc rule: less_induct)
  case less
  show ?case
  proof (cases "f = []")
    case True then show ?thesis by (simp add: doc_paths.simps)
  next
    case False
    from False less.prems have "length (path_dirname f) < length f" by (rule dirname_shorter)
    with less.hyps [OF this dirname_relative [OF less.prems]] False show ?thesis
      by (subst doc_paths.simps) simp
  qed
qed

lemma doc_paths_Some_relative:
  assumes h: "doc_paths root f acc = Some r"
  shows "take 1 f \<noteq> ''/''"
proof (rule doc_paths.raw_induct [where P = "\<lambda>root f acc r. take 1 f \<noteq> ''/''", OF _ h])
  fix g root f acc r
  assume IH: "\<And>f acc b y. g f acc b = Some y \<Longrightarrow> take 1 acc \<noteq> ''/''"
    and step: "(if f = [] then Some acc else g root (path_dirname f) (acc @ [path_normpath (path_join root f)])) = Some r"
  show "take 1 f \<noteq> ''/''"
  proof
    assume a: "take 1 f = ''/''"
    then have "f \<noteq> []" by auto
    with step have "g root (path_dirname f) (acc @ [path_normpath (path_join root f)]) = Some r" by simp
    from IH [OF this] dirname_absolute [OF a] show False by simp
  qed
qed

lemma doc_paths_absolute: "take 1 f = ''/'' \<Longrightarrow> doc_paths root f acc = None"
  by (cases "doc_paths root f acc") (auto dest: doc_paths_Some_relative)


lemma split_slash_noslash: "w \<in> set (split_slash s) \<Longrightarrow> CHR ''/'' \<notin> set w"
  by (induction s arbitrary: w rule: split_slash.induct) (auto split: list.splits if_splits)

lemma norm_comps_set: "set (norm_comps init new ws) \<subseteq> set new \<union> {w \<in> set ws. w \<noteq> []}"
proof (induction init new ws rule: norm_comps.induct)
  case (2 init new w ws)
  then show ?case by (auto split: if_splits dest: in_set_butlastD)
qed simp

lemma take1_join_slash: "take (Suc 0) (join_slash ((a # w) # ws)) = [a]"
  by (cases ws) auto

lemma normpath_absolute: "take 1 (path_normpath t) = ''/'' \<longleftrightarrow> take 1 t = ''/''"
proof (cases "take 1 t = ''/''")
  case True
  then have "t \<noteq> []" by auto
  with True show ?thesis by (auto simp: path_normpath_def Let_def)
next
  case False
  define cs where "cs = norm_comps 0 [] (split_slash t)"
  have rel: "take 1 (join_slash cs) \<noteq> ''/''"
  proof (cases cs)
    case (Cons w ws)
    then have "w \<in> set cs" by simp
    then have "w \<noteq> []" and "CHR ''/'' \<notin> set w"
      using norm_comps_set [of 0 "[]" "split_slash t"] split_slash_noslash unfolding cs_def by auto
    with Cons show ?thesis by (cases w) (auto simp: take1_join_slash)
  qed simp
  from False have "take 1 (path_normpath t) \<noteq> ''/''"
    using rel by (auto simp: path_normpath_def Let_def cs_def)
  with False show ?thesis by simp
qed

lemma docs_paths_None:
  "docs_paths root ds acc = None \<longleftrightarrow> (\<exists>t. Some t \<in> set ds \<and> take 1 t = ''/'')"
proof (induction root ds acc rule: docs_paths.induct)
  case (3 root t ds acc)
  show ?case
  proof (cases "take 1 t = ''/''")
    case True
    then have "take 1 (path_normpath t) = ''/''" using normpath_absolute by simp
    then have "doc_paths root (path_normpath t) acc = None" by (rule doc_paths_absolute)
    with True show ?thesis by auto
  next
    case False
    then obtain r where "doc_paths root (path_normpath t) acc = Some r"
      using doc_paths_relative [of "path_normpath t" root acc] normpath_absolute [of t] by auto
    with 3 [OF this] False show ?thesis by auto
  qed
qed auto


lemma foldl_remove1_set:
  "distinct l \<Longrightarrow> distinct (foldl (\<lambda>l n. remove1 n l) l exc) \<and> set (foldl (\<lambda>l n. remove1 n l) l exc) = set l - set exc"
  by (induction exc arbitrary: l) auto

lemma common_prefix_same [simp]: "common_prefix r r = r"
  by (induction r) auto

lemma walk_subdirs_none: "walk_subdirs conf pats ar root [] es acc = Some (Inr acc)"
proof (induction es)
  case (Cons e es) then show ?case by (cases e) simp_all
qed simp


lemma foldl_set_subset:
  "(\<And>m x. x \<in> set xs \<Longrightarrow> set (f m x) \<subseteq> set m \<union> Q x) \<Longrightarrow> set (foldl f m0 xs) \<subseteq> set m0 \<union> (\<Union>x \<in> set xs. Q x)"
proof (induction xs arbitrary: m0)
  case (Cons x xs)
  have "set (foldl f (f m0 x) xs) \<subseteq> set (f m0 x) \<union> (\<Union>x \<in> set xs. Q x)" using Cons by simp
  moreover have "set (f m0 x) \<subseteq> set m0 \<union> Q x" using Cons.prems by simp
  ultimately show ?case by auto
qed simp

lemma partition_settings_mem:
  "(n, s) \<in> set (foldl (\<lambda>m s. if should_include_setting rule st s spec then od_set (setting_name s) s m else m) [] xs) \<Longrightarrow>
   s \<in> set xs \<and> setting_name s = n \<and> should_include_setting rule st s spec"
  using foldl_set_subset [of xs "\<lambda>m s. if should_include_setting rule st s spec then od_set (setting_name s) s m else m"
      "\<lambda>s. if should_include_setting rule st s spec then {(setting_name s, s)} else {}" "[]"]
    set_od_set by (fastforce split: if_splits)

lemma partition_stanzas_mem:
  "(sn, settings) \<in> set (foldl (partition_stanza rule spec) [] sts) \<Longrightarrow>
   \<exists>st \<in> set sts. stanza_name st = sn \<and> should_include_stanza rule st settings spec \<and>
     settings = foldl (\<lambda>m s. if should_include_setting rule st s spec then od_set (setting_name s) s m else m) [] (stanza_settings st)"
  using foldl_set_subset [of sts "partition_stanza rule spec"
      "\<lambda>st. (let settings = foldl (\<lambda>m s. if should_include_setting rule st s spec then od_set (setting_name s) s m else m) [] (stanza_settings st)
             in if should_include_stanza rule st settings spec then {(stanza_name st, settings)} else {})" "[]"]
    set_od_set by (fastforce simp: partition_stanza_def Let_def split: if_splits)

lemma partition_sections_mem:
  "(f, stanzas) \<in> set (foldl (partition_section root rule spec) [] secs) \<Longrightarrow>
   \<exists>sec \<in> set secs. stanzas = foldl (partition_stanza rule spec) [] (section_stanzas sec)"
  using foldl_set_subset [of secs "partition_section root rule spec"
      "\<lambda>sec. {(drop (length (common_prefix root (section_name sec)) + 1) (section_name sec),
               foldl (partition_stanza rule spec) [] (section_stanzas sec))}" "[]"]
    set_od_set by (fastforce simp: partition_section_def Let_def split: if_splits)

lemma partition_files_mem:
  "(c, files) \<in> set (partition_configuration ir dr root spec confs) \<Longrightarrow>
   \<exists>cf \<in> set confs. conf_name cf = c \<and>
     files = foldl (partition_section root (if c = ''inputs'' then ir else dr) spec) [] (conf_sections cf)"
  using foldl_set_subset [of confs
      "\<lambda>m cf. let rule = (if conf_name cf = ''inputs'' then ir else dr);
                  files = foldl (partition_section root rule spec) [] (conf_sections cf)
              in if files \<noteq> [] then od_set (conf_name cf) files m else m"
      "\<lambda>cf. {(conf_name cf, foldl (partition_section root (if conf_name cf = ''inputs'' then ir else dr) spec) [] (conf_sections cf))}" "[]"]
    set_od_set unfolding partition_configuration_def by (fastforce simp: Let_def split: if_splits)

section \<open>Properties\<close>

text \<open>C31 (finding): when every entry of the app directory is excluded for the workload,
  \<open>_set_asset_filenames\<close> raises \<open>KeyError\<close>: the app root is counted in \<open>file_counts\<close>
  with no entries, queued as an empty directory, and removed from \<open>asset_filenames\<close>, which
  never held it.\<close>

theorem assets_root_excluded_raises:
  "distinct (fs_dir_names es) \<Longrightarrow> distinct (fs_file_names es) \<Longrightarrow>
   set (fs_dir_names es) \<subseteq> set (excluded_filenames conf [] (fs_dir_names es) pats) \<Longrightarrow>
   set (fs_file_names es) \<subseteq> set (excluded_filenames conf [] (fs_file_names es) pats) \<Longrightarrow>
   set_asset_filenames conf pats root es = Some (Inl KeyError)"
proof -
  assume dd: "distinct (fs_dir_names es)" and df: "distinct (fs_file_names es)"
    and ed: "set (fs_dir_names es) \<subseteq> set (excluded_filenames conf [] (fs_dir_names es) pats)"
    and ef: "set (fs_file_names es) \<subseteq> set (excluded_filenames conf [] (fs_file_names es) pats)"
  have kd: "(if fs_dir_names es \<noteq> [] then foldl (\<lambda>l n. remove1 n l) (fs_dir_names es) (excluded_filenames conf [] (fs_dir_names es) pats) else fs_dir_names es) = []"
  proof -
    have "set (foldl (\<lambda>l n. remove1 n l) (fs_dir_names es) (excluded_filenames conf [] (fs_dir_names es) pats)) = {}"
      using foldl_remove1_set [OF dd, of "excluded_filenames conf [] (fs_dir_names es) pats"] ed by auto
    then show ?thesis by simp
  qed
  have kf: "(if fs_file_names es \<noteq> [] then foldl (\<lambda>l n. remove1 n l) (fs_file_names es) (excluded_filenames conf [] (fs_file_names es) pats) else fs_file_names es) = []"
  proof -
    have "set (foldl (\<lambda>l n. remove1 n l) (fs_file_names es) (excluded_filenames conf [] (fs_file_names es) pats)) = {}"
      using foldl_remove1_set [OF df, of "excluded_filenames conf [] (fs_file_names es) pats"] ef by auto
    then show ?thesis by simp
  qed
  have sp: "split_filename (drop (length (common_prefix root root) + 1) root) = Some []"
    by (simp add: split_filename.simps)
  have "walk_top conf pats root root es ([], [(root, 0)]) = Some (Inr ([], [], [(root, 0)]))"
    by (simp only: walk_top_def sp bind.simps(2) prod.case Let_def kd kf) simp
  then have "walk_dir conf pats root root es ([], [(root, 0)]) = Some (Inr ([], [(root, 0)]))"
    by (simp add: walk_subdirs_none)
  then show ?thesis by (simp add: set_asset_filenames_def)
qed

theorem assets_root_excluded_raises_witness:
  "distinct (fs_dir_names [FsFile ''app.manifest'']) \<and> distinct (fs_file_names [FsFile ''app.manifest'']) \<and>
   set (fs_dir_names [FsFile ''app.manifest''])
     \<subseteq> set (excluded_filenames [] [] (fs_dir_names [FsFile ''app.manifest'']) (exclusion_patterns (spec_plain ''fwd'' {''forwarder''}))) \<and>
   set (fs_file_names [FsFile ''app.manifest''])
     \<subseteq> set (excluded_filenames [] [] (fs_file_names [FsFile ''app.manifest'']) (exclusion_patterns (spec_plain ''fwd'' {''forwarder''}))) \<and>
   set_asset_filenames [] (exclusion_patterns (spec_plain ''fwd'' {''forwarder''})) ''apps/ex'' [FsFile ''app.manifest''] = Some (Inl KeyError)"
proof -
  have h1: "distinct (fs_dir_names [FsFile ''app.manifest''])" by simp
  have h2: "distinct (fs_file_names [FsFile ''app.manifest''])" by simp
  have h3: "set (fs_dir_names [FsFile ''app.manifest''])
     \<subseteq> set (excluded_filenames [] [] (fs_dir_names [FsFile ''app.manifest'']) (exclusion_patterns (spec_plain ''fwd'' {''forwarder''})))"
    by simp
  have h4: "set (fs_file_names [FsFile ''app.manifest''])
     \<subseteq> set (excluded_filenames [] [] (fs_file_names [FsFile ''app.manifest'']) (exclusion_patterns (spec_plain ''fwd'' {''forwarder''})))"
    by code_simp
  from assets_root_excluded_raises [OF h1 h2 h3 h4] h1 h2 h3 h4 show ?thesis by blast
qed

text \<open>C32 (finding): \<open>_detect_is_empty\<close> returns unless it reaches the loop over the
  documents of the manifest and one of them is an absolute path; then it never returns,
  since \<open>dirname('/')\<close> is \<open>'/'\<close> and the loop waits for an empty name.\<close>

theorem detect_is_empty_returns:
  "detect_is_empty src assets conf = None \<longleftrightarrow>
   (conf = [] \<or> (length conf = 1 \<and> ''app'' \<in> fst ` set conf)) \<and> assets \<noteq> [] \<and>
   (\<exists>t. Some t \<in> set (ps_documents src) \<and> take 1 t = ''/'')"
  by (auto simp: detect_is_empty_def Let_def docs_paths_None)

text \<open>C33: the partitioned configuration keeps only settings the file's packaging rule admits,
  under the names they have, in stanzas the rule admits given the settings kept.\<close>

theorem partition_settings_admitted:
  "(c, files) \<in> set (partition_configuration ir dr root spec confs) \<Longrightarrow> (f, stanzas) \<in> set files \<Longrightarrow>
   (sn, settings) \<in> set stanzas \<Longrightarrow> (n, s) \<in> set settings \<Longrightarrow>
   \<exists>cf \<in> set confs. conf_name cf = c \<and>
     (\<exists>sec \<in> set (conf_sections cf). \<exists>st \<in> set (section_stanzas sec).
        stanza_name st = sn \<and> s \<in> set (stanza_settings st) \<and> setting_name s = n \<and>
        should_include_setting (if c = ''inputs'' then ir else dr) st s spec \<and>
        should_include_stanza (if c = ''inputs'' then ir else dr) st settings spec)"
proof -
  assume c: "(c, files) \<in> set (partition_configuration ir dr root spec confs)" and f: "(f, stanzas) \<in> set files"
    and sn: "(sn, settings) \<in> set stanzas" and n: "(n, s) \<in> set settings"
  from partition_files_mem [OF c] obtain cf where cf: "cf \<in> set confs" "conf_name cf = c"
    and files: "files = foldl (partition_section root (if c = ''inputs'' then ir else dr) spec) [] (conf_sections cf)"
    by blast
  from partition_sections_mem [OF f [unfolded files]] obtain sec where sec: "sec \<in> set (conf_sections cf)"
    and stanzas: "stanzas = foldl (partition_stanza (if c = ''inputs'' then ir else dr) spec) [] (section_stanzas sec)"
    by blast
  from partition_stanzas_mem [OF sn [unfolded stanzas]] obtain st where st: "st \<in> set (section_stanzas sec)"
    "stanza_name st = sn" "should_include_stanza (if c = ''inputs'' then ir else dr) st settings spec"
    and settings: "settings = foldl (\<lambda>m s. if should_include_setting (if c = ''inputs'' then ir else dr) st s spec
                                      then od_set (setting_name s) s m else m) [] (stanza_settings st)"
    by blast
  from partition_settings_mem [OF n [unfolded settings]] cf sec st show ?thesis by blast
qed

theorem partition_settings_admitted_witness:
  "(''inputs'', [(''default/inputs.conf'', [(''monitor://x'', [(''index'', ex_setting)])])])
      \<in> set (partition_configuration ex_rule ex_rule ''apps/ex'' (spec_plain ''fwd'' {''forwarder''}) ex_confs) \<and>
   (''default/inputs.conf'', [(''monitor://x'', [(''index'', ex_setting)])]) \<in> set [(''default/inputs.conf'', [(''monitor://x'', [(''index'', ex_setting)])])] \<and>
   (''monitor://x'', [(''index'', ex_setting)]) \<in> set [(''monitor://x'', [(''index'', ex_setting)])] \<and>
   (''index'', ex_setting) \<in> set [(''index'', ex_setting)] \<and>
   (\<exists>cf \<in> set ex_confs. conf_name cf = ''inputs'' \<and>
     (\<exists>sec \<in> set (conf_sections cf). \<exists>st \<in> set (section_stanzas sec).
        stanza_name st = ''monitor://x'' \<and> ex_setting \<in> set (stanza_settings st) \<and> setting_name ex_setting = ''index'' \<and>
        should_include_setting (if ''inputs'' = ''inputs'' then ex_rule else ex_rule) st ex_setting (spec_plain ''fwd'' {''forwarder''}) \<and>
        should_include_stanza (if ''inputs'' = ''inputs'' then ex_rule else ex_rule) st [(''index'', ex_setting)] (spec_plain ''fwd'' {''forwarder''})))"
proof -
  have h1: "(''inputs'', [(''default/inputs.conf'', [(''monitor://x'', [(''index'', ex_setting)])])])
      \<in> set (partition_configuration ex_rule ex_rule ''apps/ex'' (spec_plain ''fwd'' {''forwarder''}) ex_confs)"
    by code_simp
  have h2: "(''default/inputs.conf'', [(''monitor://x'', [(''index'', ex_setting)])]) \<in> set [(''default/inputs.conf'', [(''monitor://x'', [(''index'', ex_setting)])])]"
    by simp
  have h3: "(''monitor://x'', [(''index'', ex_setting)]) \<in> set [(''monitor://x'', [(''index'', ex_setting)])]" by simp
  have h4: "(''index'', ex_setting) \<in> set [(''index'', ex_setting)]" by simp
  from partition_settings_admitted [OF h1 h2 h3 h4] h1 h2 h3 h4 show ?thesis by blast
qed

lemma path_join_append: "take 1 b \<noteq> ''/'' \<Longrightarrow> b \<noteq> [] \<Longrightarrow> path_join a (b @ c) = path_join a b @ c"
  by (cases b) (auto simp: path_join_def)

lemma docs_paths_none: "list_all (\<lambda>d. d = None) ds \<Longrightarrow> docs_paths root ds acc = Some acc"
  by (induction ds) auto

text \<open>C34 (finding): \<open>_detect_is_empty\<close> ignores every asset whose path starts with the
  string \<open>app_root/bin\<close>, not only those in the bin directory: whatever the names after
  \<open>bin\<close> (\<open>binary/tool\<close>, \<open>bin.txt\<close>, \<open>bin/x\<close>), an app with no more configuration than
  app.conf and no manifest documents whose assets all start so is judged empty.\<close>

theorem bin_prefix_empty:
  "list_all (\<lambda>d. d = None) (ps_documents src) \<Longrightarrow>
   detect_is_empty src (map (\<lambda>s. path_join (ps_directory src) (''bin'' @ s)) sufs) conf =
     Some (conf = [] \<or> (length conf = 1 \<and> ''app'' \<in> fst ` set conf))"
proof -
  assume docs: "list_all (\<lambda>d. d = None) (ps_documents src)"
  let ?bin = "path_join (ps_directory src) ''bin''"
  have pre: "path_join (ps_directory src) (''bin'' @ s) = ?bin @ s" for s
    by (rule path_join_append) simp_all
  have m: "map (\<lambda>s. path_join (ps_directory src) (''bin'' @ s)) sufs = map (\<lambda>s. ?bin @ s) sufs"
    by (simp only: pre)
  show ?thesis
    unfolding m using docs_paths_none [OF docs] by (auto simp: detect_is_empty_def Let_def)
qed

theorem bin_prefix_empty_witness:
  "detect_is_empty (ex_psrc [] [] []) [''apps/ex/binary'', ''apps/ex/binary/tool''] [] = Some True"
proof -
  have "list_all (\<lambda>d. d = None) (ps_documents (ex_psrc [] [] []))" by (simp add: ex_psrc_def)
  from bin_prefix_empty [OF this, of "[''ary'', ''ary/tool'']" "[]"] show ?thesis
    by (simp add: ex_psrc_def path_join_def)
qed

end
