(* ===== verification/GraphQueries.thy ===== *)
theory GraphQueries
  imports SpecPropagation
begin

text \<open>
  The queries of a constructed \<open>AppDependencyGraph\<close> (src/slim/app/_deployment.py):
  \<open>traverse\<close> (lines 263--281), a loop over a deque with a visited set that hands each
  source to a caller's visitor; \<open>_describe\<close> and the \<open>description\<close> property (lines
  113--118 and 318--328), the npm-style text of the graph, recursive without a visited set
  and modelled with fuel; and \<open>report_unreferenced_input_groups\<close> (lines 203--261).
\<close>

section \<open>traverse\<close>

text \<open>The visitor is a function of the caller's state: it receives the source, its
  dependency sources (\<open>graph[app_source]\<close>) and its dependents (\<open>app_dependents.get\<close>) and
  returns the new state and the dependency sources to continue with.\<close>

type_synonym 's visitor =
  "'s \<Rightarrow> app_source \<Rightarrow> app_source list \<Rightarrow> (dependency \<times> app_source) list option \<Rightarrow> 's \<times> app_source list"

text \<open>The \<open>while\<close> loop of \<open>traverse\<close>: \<open>queue.pop()\<close>; a source not yet visited is looked
  up in the graph (\<open>KeyError\<close> if it is no node), visited, and what the visitor returns is
  pushed with \<open>extendleft\<close>.\<close>

function traverse_loop ::
  "'s visitor \<Rightarrow> (app_source, app_source list) odict \<Rightarrow> (app_source, (dependency \<times> app_source) list) odict \<Rightarrow>
   app_source list \<Rightarrow> app_source list \<Rightarrow> 's \<Rightarrow> py_error + 's" where
  "traverse_loop visit g dm q visited s =
     (if q = [] then Inr s
      else (case dq_pop q of (a, q') \<Rightarrow>
        if a \<in> set visited then traverse_loop visit g dm q' visited s
        else (case map_of g a of
                None \<Rightarrow> Inl KeyError
              | Some ds \<Rightarrow> (case visit s a ds (map_of dm a) of (s', ds') \<Rightarrow>
                  traverse_loop visit g dm (dq_extendleft ds' q') (visited @ [a]) s'))))"
  by pat_completeness auto
termination
proof (relation "measures [\<lambda>(_, g, _, _, visited, _). card (fst ` set g - set visited),
                           \<lambda>(_, _, _, q, _, _). length q]", goal_cases)
  case 1
  show ?case by simp
next
  case (2 visit g dm q visited s a q')
  then show ?case using dq_pop_facts [of q a q'] by simp
next
  case (3 visit g dm q visited s a q' ds s' ds')
  then have "a \<in> fst ` set g" by (auto dest: map_of_SomeD intro: rev_image_eqI)
  with 3 have "fst ` set g - set (visited @ [a]) \<subset> fst ` set g - set visited" by auto
  then show ?case by (simp add: psubset_card_mono)
qed

declare traverse_loop.simps [simp del]

text \<open>\<open>traverse(visit)\<close> from the root; it returns \<open>self._dependents\<close>, the visitor's
  effects being its final state.\<close>

definition traverse ::
  "'s visitor \<Rightarrow> graph_state \<Rightarrow> app_source \<Rightarrow> 's \<Rightarrow>
   py_error + (app_source, (dependency \<times> app_source) list) odict \<times> 's" where
  "traverse visit st root s =
     map_sum id (\<lambda>s'. (gs_dependents st, s')) (traverse_loop visit (gs_graph st) (gs_dependents st) [root] [] s)"


text \<open>A visitor that also records the sources handed to it, in order.\<close>

definition recording :: "'s visitor \<Rightarrow> ('s \<times> app_source list) visitor" where
  "recording visit = (\<lambda>(s, log) a ds dps. case visit s a ds dps of (s', ds') \<Rightarrow> ((s', log @ [a]), ds'))"


section \<open>_describe and description\<close>

text \<open>\<open>string(version)\<close> and \<open>str(version_range)\<close> of \<open>semantic_version\<close>.\<close>

fun nat_str :: "nat \<Rightarrow> string" where
  "nat_str n = (if n < 10 then [char_of (48 + n)] else nat_str (n div 10) @ [char_of (48 + n mod 10)])"

definition version_str :: "version \<Rightarrow> string" where
  "version_str v = (case v of (a, b, c) \<Rightarrow> nat_str a @ ''.'' @ nat_str b @ ''.'' @ nat_str c)"

fun range_str :: "version_range \<Rightarrow> string" where
  "range_str AnyVersion = ''*''"
| "range_str (SameAs v) = ''=='' @ version_str v"
| "range_str (AtLeast v) = ''>='' @ version_str v"
| "range_str (Below v) = ''<'' @ version_str v"
| "range_str (Both r1 r2) = range_str r1 @ '','' @ range_str r2"

abbreviation newline :: string where
  "newline \<equiv> [CHR 0x0A]"

text \<open>The line of one dependency at depth \<open>level\<close> (lines 323--326).\<close>

definition describe_line :: "nat \<Rightarrow> dependency \<Rightarrow> app_source \<Rightarrow> string" where
  "describe_line level d s =
     ''|'' @ concat (replicate level ''   '') @ ''|-- '' @ src_id s @ ''@'' @ version_str (src_version s) @
     '' (accepting '' @ range_str (dep_version d) @ '')'' @ newline"

text \<open>\<open>_describe(app_source, level)\<close> over \<open>app_source.dependencies\<close>; the fuel bounds the
  depth of the recursion, \<open>None\<close> being a recursion that did not finish.\<close>

fun describe_node :: "nat \<Rightarrow> graph_state \<Rightarrow> app_source \<Rightarrow> nat \<Rightarrow> string option"
and describe_deps :: "nat \<Rightarrow> graph_state \<Rightarrow> nat \<Rightarrow> (dependency \<times> app_source) list \<Rightarrow> string option" where
  "describe_node 0 st a level = None"
| "describe_node (Suc n) st a level =
     map_option (\<lambda>out. (if level = 1 then ''|-- '' @ src_id a @ ''@'' @ version_str (src_version a) @ newline else []) @ out)
       (describe_deps n st level (deps_of st a))"
| "describe_deps n st level [] = Some []"
| "describe_deps n st level ((d, s) # rest) =
     (case describe_node n st s (level + 1) of
        None \<Rightarrow> None
      | Some sub \<Rightarrow> map_option (\<lambda>out. describe_line level d s @ sub @ out) (describe_deps n st level rest))"

text \<open>The \<open>description\<close> property: \<open>_describe(self.root, 1)\<close> under the recursion limit
  \<open>limit\<close>, when \<open>depth\<close> frames are already in use (the caller's and the property's own,
  and those the deepest \<open>_describe\<close> call needs besides its own frame): every nested
  call takes one more frame, and Python raises \<open>RecursionError\<close> beyond the limit.\<close>

definition description :: "nat \<Rightarrow> nat \<Rightarrow> graph_state \<Rightarrow> app_source \<Rightarrow> py_error + string" where
  "description limit depth st root =
     (case describe_node (limit - depth) st root 1 of None \<Rightarrow> Inl RecursionError | Some out \<Rightarrow> Inr out)"


section \<open>report_unreferenced_input_groups\<close>

text \<open>One entry \<open>dependency_name: dependency_groups\<close> of a group's \<open>requires\<close> (lines
  231--235).\<close>

definition reference_step ::
  "graph_state \<Rightarrow> app_source \<Rightarrow> (app_source, string set) odict \<Rightarrow> string \<times> string set \<Rightarrow>
   py_error + (app_source, string set) odict" where
  "reference_step st a refs req =
     (case req of (dname, groups) \<Rightarrow>
       (case src_declared a of
          None \<Rightarrow> Inl (TypeError ''NoneType object is not subscriptable'')
        | Some decls \<Rightarrow> (case map_of decls dname of
          None \<Rightarrow> Inl KeyError
        | Some d \<Rightarrow> (case dep_package d of
            None \<Rightarrow> Inl KeyError
          | Some p \<Rightarrow> (case map_of (gs_repository st) p of
              None \<Rightarrow> Inl KeyError
            | Some s \<Rightarrow> (case map_of refs s of
                None \<Rightarrow> Inl KeyError
              | Some r \<Rightarrow> Inr (od_set s (union_of r groups) refs)))))))"

text \<open>\<open>referenced_dependencies\<close> of one app (lines 221--235): the groups' \<open>requires\<close>
  are read only when \<open>manifest.dependencies\<close> is not \<open>None\<close>; a \<open>requires\<close> attribute
  that is absent raises \<open>AttributeError\<close>, one that is \<open>None\<close> is skipped.\<close>

definition referenced_dependencies ::
  "graph_state \<Rightarrow> app_source \<Rightarrow> (string \<times> input_group) list \<Rightarrow> app_source list \<Rightarrow>
   py_error + (app_source, string set) odict" where
  "referenced_dependencies st a igs deps =
     (case src_declared a of
        None \<Rightarrow> Inr (map (\<lambda>s. (s, {})) deps)
      | Some _ \<Rightarrow>
          foldM (\<lambda>refs (_, g). case ig_requires g of
                    RequiresAbsent \<Rightarrow> Inl AttributeError
                  | RequiresNone \<Rightarrow> Inr refs
                  | Requires reqs \<Rightarrow> foldM (reference_step st a) refs reqs)
            (map (\<lambda>s. (s, {})) deps) igs)"

text \<open>The messages of one app (lines 240--259): for each dependency not referenced with
  ALL, its declared input groups missing from the references, one by name or all of them
  sorted.\<close>

definition declared_groups :: "app_source \<Rightarrow> string set" where
  "declared_groups s = (case src_input_groups s of None \<Rightarrow> no_input_groups | Some igs \<Rightarrow> set (map fst igs))"

definition unreferenced_messages :: "nat \<Rightarrow> app_source \<Rightarrow> (app_source, string set) odict \<Rightarrow> diag list" where
  "unreferenced_messages level a refs =
     concat (map (\<lambda>(s, r). if r = all_input_groups \<or> declared_groups s - r = {} then []
                           else [MsgUnreferenced level (src_id a) (src_id s) (sorted_list_of_set (declared_groups s - r))])
                 refs)"

text \<open>The loop over the graph; an exception leaves the messages already logged.\<close>

fun report_loop ::
  "nat \<Rightarrow> graph_state \<Rightarrow> (app_source \<times> app_source list) list \<Rightarrow> bool \<Rightarrow> diagnostics \<Rightarrow>
   (py_error + bool) \<times> diagnostics" where
  "report_loop level st [] reported dg = (Inr reported, dg)"
| "report_loop level st ((a, deps) # rest) reported dg =
     (case src_input_groups a of
        None \<Rightarrow> report_loop level st rest reported dg
      | Some igs \<Rightarrow> (case referenced_dependencies st a igs deps of
          Inl e \<Rightarrow> (Inl e, dg)
        | Inr refs \<Rightarrow>
            (let ms = unreferenced_messages level a refs
             in report_loop level st rest (reported \<or> ms \<noteq> []) (log_all ms dg))))"

definition report_unreferenced_input_groups :: "nat \<Rightarrow> graph_state \<Rightarrow> (py_error + bool) \<times> diagnostics" where
  "report_unreferenced_input_groups level st = report_loop level st (gs_graph st) False (gs_diag st)"

section \<open>Paths in the graph\<close>

text \<open>A path of dependencies from an app: each pair is a dependency of the source before it,
  as \<open>app_source.dependencies\<close> lists them.\<close>

fun is_dep_path :: "graph_state \<Rightarrow> app_source \<Rightarrow> (dependency \<times> app_source) list \<Rightarrow> bool" where
  "is_dep_path st a [] = True"
| "is_dep_path st a ((d, s) # ps) = ((d, s) \<in> set (deps_of st a) \<and> is_dep_path st s ps)"

section \<open>Helpers of the proofs about report_unreferenced_input_groups\<close>

text \<open>Which source a dependency name of an app resolves to, the way the loop looks it up;
  how a reference set grows; and when a \<open>requires\<close> entry is covered by the references.\<close>

definition resolves :: "graph_state \<Rightarrow> app_source \<Rightarrow> string \<Rightarrow> app_source \<Rightarrow> bool" where
  "resolves st a dn s \<longleftrightarrow>
     (case src_declared a of
        None \<Rightarrow> False
      | Some decls \<Rightarrow> (case map_of decls dn of
          None \<Rightarrow> False
        | Some d \<Rightarrow> (case dep_package d of None \<Rightarrow> False | Some p \<Rightarrow> map_of (gs_repository st) p = Some s)))"

definition groups_grow :: "string set \<Rightarrow> string set \<Rightarrow> bool" where
  "groups_grow r r' \<longleftrightarrow> r' = all_input_groups \<or> (r \<noteq> all_input_groups \<and> r \<subseteq> r')"

definition refs_grow :: "(app_source, string set) odict \<Rightarrow> (app_source, string set) odict \<Rightarrow> bool" where
  "refs_grow refs refs' \<longleftrightarrow> od_keys refs' = od_keys refs \<and>
     (\<forall>s r. map_of refs s = Some r \<longrightarrow> (\<exists>r'. map_of refs' s = Some r' \<and> groups_grow r r'))"

definition covered :: "graph_state \<Rightarrow> app_source \<Rightarrow> string \<times> string set \<Rightarrow> (app_source, string set) odict \<Rightarrow> bool" where
  "covered st a req refs \<longleftrightarrow> (case req of (dn, groups) \<Rightarrow>
     \<forall>s. resolves st a dn s \<longrightarrow> (\<exists>r. map_of refs s = Some r \<and> (r = all_input_groups \<or> (groups \<subseteq> r \<and> ''*'' \<notin> groups))))"


section \<open>Scenarios\<close>

text \<open>A root \<open>r\<close> depending on \<open>a\<close>, which depends on \<open>c\<close>.\<close>

definition ex_chain_root :: app_source where
  "ex_chain_root = ex_src ''r'' [(''a'', ex_dep ''a'')]"

definition ex_chain_graph :: graph_state where
  "ex_chain_graph = build_graph [(''a'', ex_src ''a'' [(''c'', ex_dep ''c'')]), (''c'', ex_src ''c'' [])] [] [] diagnostics0 ex_chain_root"

text \<open>An app whose input group \<open>g1\<close> requires the group \<open>x\<close> of its dependency \<open>d\<close>, which
  declares the input groups \<open>x\<close> and \<open>y\<close>.\<close>

definition ex_groups_app :: app_source where
  "ex_groups_app = (ex_src ''r'' [(''d'', ex_dep ''d'')])
     \<lparr>src_input_groups := Some [(''g1'', \<lparr>ig_requires = Requires [(''d'', {''x''})]\<rparr>)]\<rparr>"

definition ex_groups_dep :: app_source where
  "ex_groups_dep = (ex_src ''d'' [])
     \<lparr>src_input_groups := Some [(''x'', \<lparr>ig_requires = RequiresNone\<rparr>), (''y'', \<lparr>ig_requires = RequiresNone\<rparr>)]\<rparr>"

definition ex_groups_graph :: graph_state where
  "ex_groups_graph = build_graph [(''d'', ex_groups_dep)] [] [] diagnostics0 ex_groups_app"

text \<open>An app whose input group requires an optional dependency that is neither pinned nor
  installed.\<close>

definition ex_optional_app :: app_source where
  "ex_optional_app = (ex_src ''r'' [(''opt'', \<lparr>dep_package = None, dep_version = AnyVersion, dep_optional = True\<rparr>)])
     \<lparr>src_input_groups := Some [(''g1'', \<lparr>ig_requires = Requires [(''opt'', {''x''})]\<rparr>)]\<rparr>"


section \<open>traverse: each reachable source is visited once\<close>

lemma traverse_loop_pop:
  "q \<noteq> [] \<Longrightarrow> dq_pop q = (a, q') \<Longrightarrow> traverse_loop visit g dm q vis s =
     (if a \<in> set vis then traverse_loop visit g dm q' vis s
      else (case map_of g a of
              None \<Rightarrow> Inl KeyError
            | Some ds \<Rightarrow> (case visit s a ds (map_of dm a) of (s', ds') \<Rightarrow>
                traverse_loop visit g dm (dq_extendleft ds' q') (vis @ [a]) s')))"
  by (subst traverse_loop.simps) simp

lemma traverse_loop_recording:
  assumes filt: "\<And>s a ds dps. set (snd (visit s a ds dps)) \<subseteq> set ds"
  shows "set (concat (map snd g)) \<subseteq> fst ` set g \<Longrightarrow> v = recording visit \<Longrightarrow> snd st = vis \<Longrightarrow> set q \<subseteq> fst ` set g \<Longrightarrow> distinct vis \<Longrightarrow>
    \<exists>s' lg. traverse_loop v g dm q vis st = Inr (s', lg) \<and> distinct lg \<and> set vis \<union> set q \<subseteq> set lg \<and>
      set lg \<subseteq> set vis \<union> (graph_edges g)\<^sup>* `` set q"
proof (induction v g dm q vis st rule: traverse_loop.induct)
  case (1 v g dm q vis st)
  show ?case
  proof (cases "q = []")
    case True
    with "1.prems"(2,3,5) show ?thesis by (cases st) (simp add: traverse_loop.simps)
  next
    case ne: False
    obtain a q' where pop: "dq_pop q = (a, q')" by fastforce
    from dq_pop_facts [OF ne pop [symmetric]] have a: "a \<in> set q" and q': "set q' \<subseteq> set q" by auto
    have qs: "set q = insert a (set q')"
      using ne pop by (rule dq_pop_set)
    show ?thesis
    proof (cases "a \<in> set vis")
      case True
      have eq: "traverse_loop v g dm q vis st = traverse_loop v g dm q' vis st"
        by (simp only: traverse_loop_pop [OF ne pop] True if_True)
      from "1.IH"(1) [OF ne pop [symmetric] True "1.prems"(1,2,3) _ "1.prems"(5)] q' "1.prems"(4)
      obtain s' lg where r: "traverse_loop v g dm q' vis st = Inr (s', lg)" "distinct lg"
        "set vis \<union> set q' \<subseteq> set lg" "set lg \<subseteq> set vis \<union> (graph_edges g)\<^sup>* `` set q'" by blast
      have "(graph_edges g)\<^sup>* `` set q' \<subseteq> (graph_edges g)\<^sup>* `` set q" using q' by (rule Image_mono [OF order_refl])
      then have "set lg \<subseteq> set vis \<union> (graph_edges g)\<^sup>* `` set q"
        by (rule order_trans [OF r(4) Un_mono [OF order_refl]])
      moreover have "set vis \<union> set q \<subseteq> set lg" unfolding qs using r(3) True by auto
      ultimately show ?thesis unfolding eq using r(1,2) by blast
    next
      case new: False
      from a "1.prems"(4) obtain ds where ds: "map_of g a = Some ds"
        by (cases "map_of g a") (auto simp: map_of_eq_None_iff)
      obtain s0 where st: "st = (s0, vis)" using "1.prems"(3) by (cases st) auto
      obtain s' ds' where vs: "visit s0 a ds (map_of dm a) = (s', ds')" by fastforce
      have rv: "v st a ds (map_of dm a) = ((s', vis @ [a]), ds')"
        using "1.prems"(2) vs st by (simp add: recording_def)
      have eq: "traverse_loop v g dm q vis st = traverse_loop v g dm (dq_extendleft ds' q') (vis @ [a]) (s', vis @ [a])"
        by (simp only: traverse_loop_pop [OF ne pop, of v g dm vis st] new ds rv if_False option.case prod.case)
      have sub: "set ds' \<subseteq> set ds" using filt [of s0 a ds "map_of dm a"] vs by simp
      have "set ds \<subseteq> set (concat (map snd g))" using map_of_SomeD [OF ds] by force
      then have dsg: "set ds \<subseteq> fst ` set g" using "1.prems"(1) by (rule subset_trans)
      have edges: "set ds \<subseteq> (graph_edges g) `` {a}" using ds by (auto simp: graph_edges_def)
      have p1: "set (dq_extendleft ds' q') \<subseteq> fst ` set g"
        using sub dsg q' "1.prems"(4) by (auto simp: dq_extendleft_def)
      have p2: "distinct (vis @ [a])" using "1.prems"(5) new by simp
      have "\<exists>s'' lg. traverse_loop v g dm (dq_extendleft ds' q') (vis @ [a]) (s', vis @ [a]) = Inr (s'', lg) \<and>
          distinct lg \<and> set (vis @ [a]) \<union> set (dq_extendleft ds' q') \<subseteq> set lg \<and>
          set lg \<subseteq> set (vis @ [a]) \<union> (graph_edges g)\<^sup>* `` set (dq_extendleft ds' q')"
        using "1.IH"(2) [OF ne pop [symmetric] new ds rv [symmetric] "1.prems"(1,2) _ p1 p2] by simp
      then obtain s'' lg where r: "traverse_loop v g dm (dq_extendleft ds' q') (vis @ [a]) (s', vis @ [a]) = Inr (s'', lg)"
        "distinct lg" "set (vis @ [a]) \<union> set (dq_extendleft ds' q') \<subseteq> set lg"
        "set lg \<subseteq> set (vis @ [a]) \<union> (graph_edges g)\<^sup>* `` set (dq_extendleft ds' q')"
        by blast
      have step: "(graph_edges g) `` {a} \<subseteq> (graph_edges g)\<^sup>* `` set q"
      proof
        fix x assume "x \<in> (graph_edges g) `` {a}"
        then have "(a, x) \<in> (graph_edges g)\<^sup>*" by (simp add: r_into_rtrancl)
        then show "x \<in> (graph_edges g)\<^sup>* `` set q" using a by (rule ImageI)
      qed
      have "set (dq_extendleft ds' q') \<subseteq> (graph_edges g)\<^sup>* `` set q"
      proof -
        have "set ds' \<subseteq> (graph_edges g)\<^sup>* `` set q" using order_trans [OF order_trans [OF sub edges] step] .
        moreover have "set q' \<subseteq> (graph_edges g)\<^sup>* `` set q" using q' by (auto intro: ImageI [OF rtrancl_refl])
        ultimately show ?thesis by (simp add: dq_extendleft_def)
      qed
      then have reach: "(graph_edges g)\<^sup>* `` set (dq_extendleft ds' q') \<subseteq> (graph_edges g)\<^sup>* `` set q"
        by (rule rtrancl_Image_absorb)
      have "a \<in> (graph_edges g)\<^sup>* `` set q" by (rule ImageI [OF rtrancl_refl a])
      then have "set lg \<subseteq> set vis \<union> (graph_edges g)\<^sup>* `` set q" using r(4) reach by auto
      moreover have "set vis \<union> set q \<subseteq> set lg" unfolding qs using r(3) by (auto simp: dq_extendleft_def)
      ultimately show ?thesis unfolding eq using r(1,2) by blast
    qed
  qed
qed


lemma traverse_loop_closed:
  assumes keep: "\<And>s a ds dps. set ds \<subseteq> set (snd (visit s a ds dps))"
  shows "v = recording visit \<Longrightarrow> snd st = vis \<Longrightarrow> \<forall>x \<in> set vis. (graph_edges g) `` {x} \<subseteq> set vis \<union> set q \<Longrightarrow>
    traverse_loop v g dm q vis st = Inr (s', lg) \<Longrightarrow> \<forall>x \<in> set lg. (graph_edges g) `` {x} \<subseteq> set lg"
proof (induction v g dm q vis st rule: traverse_loop.induct)
  case (1 v g dm q vis st)
  show ?case
  proof (cases "q = []")
    case True
    with "1.prems" show ?thesis by (simp add: traverse_loop.simps)
  next
    case ne: False
    obtain a q' where pop: "dq_pop q = (a, q')" by fastforce
    have qs: "set q = insert a (set q')" using ne pop by (rule dq_pop_set)
    show ?thesis
    proof (cases "a \<in> set vis")
      case True
      have "\<forall>x \<in> set vis. (graph_edges g) `` {x} \<subseteq> set vis \<union> set q'"
        using "1.prems"(3) True unfolding qs by blast
      moreover have "traverse_loop v g dm q' vis st = Inr (s', lg)"
        using "1.prems"(4) by (simp only: traverse_loop_pop [OF ne pop] True if_True)
      ultimately show ?thesis using "1.IH"(1) [OF ne pop [symmetric] True "1.prems"(1,2)] by blast
    next
      case new: False
      obtain ds where ds: "map_of g a = Some ds"
        using "1.prems"(4) new by (cases "map_of g a") (simp_all add: traverse_loop_pop [OF ne pop])
      obtain s0 where st: "st = (s0, vis)" using "1.prems"(2) by (cases st) auto
      obtain s1 ds' where vs: "visit s0 a ds (map_of dm a) = (s1, ds')" by fastforce
      have rv: "v st a ds (map_of dm a) = ((s1, vis @ [a]), ds')"
        using "1.prems"(1) vs st by (simp add: recording_def)
      have run: "traverse_loop v g dm (dq_extendleft ds' q') (vis @ [a]) (s1, vis @ [a]) = Inr (s', lg)"
        using "1.prems"(4) by (simp only: traverse_loop_pop [OF ne pop, of v g dm vis st] new ds rv if_False option.case prod.case)
      have succ: "(graph_edges g) `` {a} \<subseteq> set ds'"
        using keep [of ds s0 a "map_of dm a"] vs ds by (auto simp: graph_edges_def)
      have "\<forall>x \<in> set (vis @ [a]). (graph_edges g) `` {x} \<subseteq> set (vis @ [a]) \<union> set (dq_extendleft ds' q')"
        using "1.prems"(3) succ unfolding qs by (auto simp: dq_extendleft_def)
      with run show ?thesis using "1.IH"(2) [OF ne pop [symmetric] new ds rv [symmetric] "1.prems"(1)] by simp
    qed
  qed
qed

lemma build_graph_nodes:
  "root \<in> fst ` set (gs_graph (build_graph dsrc inst rs dg root))
   \<and> set (concat (map snd (gs_graph (build_graph dsrc inst rs dg root)))) \<subseteq> fst ` set (gs_graph (build_graph dsrc inst rs dg root))"
proof -
  have "graph_closed (gs_graph (graph_state0 rs dg)) (set [root])"
    and "distinct (od_keys (gs_graph (graph_state0 rs dg)))"
    by (simp_all add: graph_state0_def graph_closed_def)
  from bfs_loop_invariants [OF this, of dsrc inst] show ?thesis
    using graph_closed_concat by (simp add: build_graph_def add_source_loop_bfs_loop)
qed

text \<open>C35: \<open>traverse\<close> on a graph \<open>_add_source\<close> built returns without raising for every
  visitor that continues with some of the dependency sources it is given, and hands each
  source to the visitor at most once, starting with the root and only sources reachable
  from it; a visitor that continues with all of them sees every reachable source.\<close>

theorem traverse_visits_reachable:
  assumes st: "st = build_graph dsrc inst rs dg root"
    and filt: "\<forall>s a ds dps. set (snd (visit s a ds dps)) \<subseteq> set ds"
  shows "\<exists>s' lg. traverse (recording visit) st root (s, []) = Inr (gs_dependents st, (s', lg)) \<and>
           distinct lg \<and> root \<in> set lg \<and> set lg \<subseteq> (graph_edges (gs_graph st))\<^sup>* `` {root} \<and>
           ((\<forall>s a ds dps. set ds \<subseteq> set (snd (visit s a ds dps))) \<longrightarrow> set lg = (graph_edges (gs_graph st))\<^sup>* `` {root})"
proof -
  have nodes: "root \<in> fst ` set (gs_graph st)" "set (concat (map snd (gs_graph st))) \<subseteq> fst ` set (gs_graph st)"
    using build_graph_nodes unfolding st by blast+
  from traverse_loop_recording [of visit, OF _ nodes(2) refl, of "(s, [])" "[]" "[root]" "gs_dependents st"] filt nodes(1)
  obtain s' lg where r: "traverse_loop (recording visit) (gs_graph st) (gs_dependents st) [root] [] (s, []) = Inr (s', lg)"
    "distinct lg" "root \<in> set lg" "set lg \<subseteq> (graph_edges (gs_graph st))\<^sup>* `` {root}"
    by auto
  have "set lg = (graph_edges (gs_graph st))\<^sup>* `` {root}" if keep: "\<forall>s a ds dps. set ds \<subseteq> set (snd (visit s a ds dps))"
  proof
    have "\<forall>x \<in> set lg. (graph_edges (gs_graph st)) `` {x} \<subseteq> set lg"
      using traverse_loop_closed [of visit, OF _ refl _ _ r(1)] keep by simp
    then show "(graph_edges (gs_graph st))\<^sup>* `` {root} \<subseteq> set lg" using r(3) by (rule closed_reach)
  qed (rule r(4))
  with r show ?thesis by (auto simp: traverse_def)
qed

theorem traverse_visits_reachable_witness:
  "ex_chain_graph = build_graph [(''a'', ex_src ''a'' [(''c'', ex_dep ''c'')]), (''c'', ex_src ''c'' [])] [] [] diagnostics0 ex_chain_root
   \<and> (\<forall>s a ds dps. set (snd ((\<lambda>(s :: nat) a ds dps. (s, ds)) s a ds dps)) \<subseteq> set ds)
   \<and> (\<exists>s' lg. traverse (recording (\<lambda>(s :: nat) a ds dps. (s, ds))) ex_chain_graph ex_chain_root (0, []) =
        Inr (gs_dependents ex_chain_graph, (s', lg)) \<and> distinct lg \<and>
        set lg = (graph_edges (gs_graph ex_chain_graph))\<^sup>* `` {ex_chain_root})"
proof -
  have h: "\<forall>s a ds dps. set (snd ((\<lambda>(s :: nat) a ds dps. (s, ds)) s a ds dps)) \<subseteq> set ds" by simp
  from traverse_visits_reachable [OF ex_chain_graph_def h, of 0] h ex_chain_graph_def
  show ?thesis by auto
qed


section \<open>_describe: the recursion limit the graph needs\<close>

lemma describe_fuel:
  "acyclic (dep_edges st) \<Longrightarrow> card ((dep_edges st)\<^sup>+ `` {a}) < n \<Longrightarrow> \<exists>out. describe_node n st a level = Some out"
  "acyclic (dep_edges st) \<Longrightarrow> \<forall>(d, s) \<in> set ds. card ((dep_edges st)\<^sup>+ `` {s}) < n \<Longrightarrow>
     \<exists>out. describe_deps n st level ds = Some out"
proof (induction n st a level and n st level ds rule: describe_node_describe_deps.induct)
  case (2 n st a level)
  have "\<forall>(d, s) \<in> set (deps_of st a). card ((dep_edges st)\<^sup>+ `` {s}) < n"
  proof (intro ballI, clarify)
    fix d s assume "(d, s) \<in> set (deps_of st a)"
    then have "(a, s) \<in> dep_edges st" by (force simp: dep_edges_def)
    from trancl_card_less [OF finite_dep_edges "2.prems"(1) this] "2.prems"(2)
    show "card ((dep_edges st)\<^sup>+ `` {s}) < n" by simp
  qed
  with "2.IH" [OF "2.prems"(1)] show ?case by auto
next
  case (4 n st level d s rest)
  from "4.prems"(2) have "card ((dep_edges st)\<^sup>+ `` {s}) < n" by simp
  with "4.IH"(1) [OF "4.prems"(1)] obtain sub where sub: "describe_node n st s (level + 1) = Some sub" by blast
  from "4.prems"(2) have "\<forall>(d, s) \<in> set rest. card ((dep_edges st)\<^sup>+ `` {s}) < n" by simp
  with "4.IH"(2) [OF sub "4.prems"(1)] sub show ?case by auto
qed simp_all

text \<open>C36: on a graph \<open>_add_source\<close> built and \<open>_is_cyclic\<close> found acyclic, the
  \<open>description\<close> property returns the text whenever the recursion limit exceeds the number of
  sources in the graph: the recursion of \<open>_describe\<close> is never deeper than that.\<close>

theorem description_within_limit:
  assumes st: "st = build_graph dsrc inst rs dg root"
    and acyc: "is_cyclic (gs_graph st) = Some False"
    and lim: "length (gs_graph st) + depth < limit"
  shows "\<exists>out. description limit depth st root = Inr out"
proof -
  have cons: "deps_consistent st" unfolding st by (rule deps_consistent_build_graph)
  have ac: "acyclic (dep_edges st)" by (rule acyclic_dep_edges [OF acyc cons])
  have nodes: "root \<in> fst ` set (gs_graph st)" "set (concat (map snd (gs_graph st))) \<subseteq> fst ` set (gs_graph st)"
    using build_graph_nodes unfolding st by blast+
  have "(dep_edges st)\<^sup>+ `` {root} \<subseteq> fst ` set (gs_graph st) - {root}"
  proof
    fix y assume "y \<in> (dep_edges st)\<^sup>+ `` {root}"
    then have y: "(root, y) \<in> (dep_edges st)\<^sup>+" by simp
    then obtain x where "(x, y) \<in> graph_edges (gs_graph st)"
      unfolding dep_edges_graph_edges [OF cons] by (blast elim: tranclE)
    then have "y \<in> set (concat (map snd (gs_graph st)))" by (force simp: graph_edges_def dest: map_of_SomeD)
    moreover have "y \<noteq> root" using y ac by (auto simp: acyclic_def)
    ultimately show "y \<in> fst ` set (gs_graph st) - {root}" using nodes(2) by blast
  qed
  then have "card ((dep_edges st)\<^sup>+ `` {root}) \<le> card (fst ` set (gs_graph st) - {root})"
    by (rule card_mono [rotated]) simp
  also have "\<dots> < card (fst ` set (gs_graph st))"
    by (rule card_Diff1_less [OF finite_imageI [OF finite_set] nodes(1)])
  also have "\<dots> \<le> length (gs_graph st)"
    by (metis card_length length_map list.set_map)
  finally have "card ((dep_edges st)\<^sup>+ `` {root}) < limit - depth" using lim by simp
  then obtain out where "describe_node (limit - depth) st root 1 = Some out" using describe_fuel(1) [OF ac] by blast
  then show ?thesis by (simp add: description_def)
qed

theorem description_within_limit_witness:
  "ex_chain_graph = build_graph [(''a'', ex_src ''a'' [(''c'', ex_dep ''c'')]), (''c'', ex_src ''c'' [])] [] [] diagnostics0 ex_chain_root
   \<and> is_cyclic (gs_graph ex_chain_graph) = Some False \<and> length (gs_graph ex_chain_graph) + 1 < 5
   \<and> (\<exists>out. description 5 1 ex_chain_graph ex_chain_root = Inr out)"
proof -
  have h2: "is_cyclic (gs_graph ex_chain_graph) = Some False" by code_simp
  have h3: "length (gs_graph ex_chain_graph) + 1 < 5" by code_simp
  from description_within_limit [OF ex_chain_graph_def h2 h3] h2 h3 ex_chain_graph_def show ?thesis by blast
qed

lemma describe_deps_member:
  "describe_deps n st level ds = Some out \<Longrightarrow> (d, s) \<in> set ds \<Longrightarrow>
   \<exists>sub u v. describe_node n st s (level + 1) = Some sub \<and> out = u @ describe_line level d s @ sub @ v"
proof (induction ds arbitrary: out)
  case (Cons e rest)
  obtain d' s' where e: "e = (d', s')" by fastforce
  from Cons.prems(1) e obtain sub' rs0 where sub': "describe_node n st s' (level + 1) = Some sub'"
    and rs0: "describe_deps n st level rest = Some rs0" and out: "out = describe_line level d' s' @ sub' @ rs0"
    by (auto split: option.splits)
  show ?case
  proof (cases "(d, s) = (d', s')")
    case True
    with sub' out show ?thesis by (intro exI [of _ sub'] exI [of _ "[]"] exI [of _ rs0]) simp
  next
    case False
    with Cons.prems(2) e have "(d, s) \<in> set rest" by auto
    from Cons.IH [OF rs0 this] obtain sub u v where "describe_node n st s (level + 1) = Some sub"
      "rs0 = u @ describe_line level d s @ sub @ v" by blast
    with out show ?thesis by (intro exI [of _ sub] exI [of _ "describe_line level d' s' @ sub' @ u"] exI [of _ v]) simp
  qed
qed simp

lemma describe_node_path:
  "describe_node n st a level = Some out \<Longrightarrow> is_dep_path st a (pre @ [(d, s)]) \<Longrightarrow>
   \<exists>u v. out = u @ describe_line (level + length pre) d s @ v"
proof (induction pre arbitrary: n a level out)
  case Nil
  then obtain m where n: "n = Suc m" by (cases n) auto
  from Nil.prems n obtain rs0 where rs0: "describe_deps m st level (deps_of st a) = Some rs0"
    and out: "out = (if level = 1 then ''|-- '' @ src_id a @ ''@'' @ version_str (src_version a) @ newline else []) @ rs0"
    by auto
  have mem: "(d, s) \<in> set (deps_of st a)" using Nil.prems(2) by simp
  from describe_deps_member [OF rs0 mem] obtain sub u v where "rs0 = u @ describe_line level d s @ sub @ v"
    by blast
  with out show ?case by (intro exI [of _ "(if level = 1 then ''|-- '' @ src_id a @ ''@'' @ version_str (src_version a) @ newline else []) @ u"] exI [of _ "sub @ v"]) simp
next
  case (Cons e pre)
  obtain d1 s1 where e: "e = (d1, s1)" by fastforce
  from Cons.prems(1) obtain m where n: "n = Suc m" by (cases n) auto
  from Cons.prems(1) n obtain rs0 where rs0: "describe_deps m st level (deps_of st a) = Some rs0"
    and out: "out = (if level = 1 then ''|-- '' @ src_id a @ ''@'' @ version_str (src_version a) @ newline else []) @ rs0"
    by auto
  from Cons.prems(2) e have mem: "(d1, s1) \<in> set (deps_of st a)" and path: "is_dep_path st s1 (pre @ [(d, s)])" by simp_all
  from describe_deps_member [OF rs0 mem] obtain sub u v where sub: "describe_node m st s1 (level + 1) = Some sub"
    and rs0': "rs0 = u @ describe_line level d1 s1 @ sub @ v" by blast
  from Cons.IH [OF sub path] obtain u' v' where "sub = u' @ describe_line (level + 1 + length pre) d s @ v'" by blast
  with out rs0' show ?case
    by (intro exI [of _ "(if level = 1 then ''|-- '' @ src_id a @ ''@'' @ version_str (src_version a) @ newline else []) @ u @ describe_line level d1 s1 @ u'"]
        exI [of _ "v' @ v"]) simp
qed

text \<open>C37 (finding): the indentation of \<open>_describe\<close> is one bar followed by three spaces
  per level (\<open>'|' + '   ' * level\<close>), as the docstring of \<open>print_description\<close> shows, not
  an accumulating \<open>'|   '\<close> per level: for every path of \<open>k\<close> dependencies from the root,
  the description holds the line of the last one, after \<open>'|'\<close> and \<open>k\<close> times
  \<open>'   '\<close>.\<close>

theorem description_indentation:
  "description limit depth st root = Inr out \<Longrightarrow> is_dep_path st root (pre @ [(d, s)]) \<Longrightarrow>
   \<exists>u v. out = u @ ''|'' @ concat (replicate (Suc (length pre)) ''   '') @ ''|-- '' @ src_id s @ ''@'' @
     version_str (src_version s) @ '' (accepting '' @ range_str (dep_version d) @ '')'' @ newline @ v"
proof -
  assume desc: "description limit depth st root = Inr out" and path: "is_dep_path st root (pre @ [(d, s)])"
  from desc have "describe_node (limit - depth) st root 1 = Some out"
    by (simp add: description_def split: option.splits)
  from describe_node_path [OF this path] show ?thesis
    by (simp add: describe_line_def)
qed

theorem description_indentation_witness:
  "description 1000 0 ex_chain_graph ex_chain_root = Inr (''|-- r@1.0.0'' @ newline @ ''|   |-- a@1.0.0 (accepting *)'' @ newline @
            ''|      |-- c@1.0.0 (accepting *)'' @ newline)
   \<and> (\<exists>u v. ''|-- r@1.0.0'' @ newline @ ''|   |-- a@1.0.0 (accepting *)'' @ newline @
            ''|      |-- c@1.0.0 (accepting *)'' @ newline =
        u @ ''|'' @ concat (replicate (Suc (length [(ex_dep ''a'', ex_src ''a'' [(''c'', ex_dep ''c'')])])) ''   '') @ ''|-- '' @
        src_id (ex_src ''c'' []) @ ''@'' @ version_str (src_version (ex_src ''c'' [])) @ '' (accepting '' @
        range_str (dep_version (ex_dep ''c'')) @ '')'' @ newline @ v)"
proof -
  have desc: "description 1000 0 ex_chain_graph ex_chain_root = Inr (''|-- r@1.0.0'' @ newline @ ''|   |-- a@1.0.0 (accepting *)'' @ newline @
            ''|      |-- c@1.0.0 (accepting *)'' @ newline)"
    by code_simp
  have path: "is_dep_path ex_chain_graph ex_chain_root
      ([(ex_dep ''a'', ex_src ''a'' [(''c'', ex_dep ''c'')])] @ [(ex_dep ''c'', ex_src ''c'' [])])"
    by code_simp
  show ?thesis by (rule conjI [OF desc description_indentation [OF desc path]])
qed

section \<open>report_unreferenced_input_groups reports only unreferenced groups\<close>

lemma refs_grow_refl: "refs_grow refs refs"
  by (auto simp: refs_grow_def groups_grow_def)

lemma groups_grow_trans: "groups_grow r1 r2 \<Longrightarrow> groups_grow r2 r3 \<Longrightarrow> groups_grow r1 r3"
  by (auto simp: groups_grow_def)

lemma refs_grow_trans:
  assumes g1: "refs_grow r1 r2" and g2: "refs_grow r2 r3"
  shows "refs_grow r1 r3"
  unfolding refs_grow_def
proof (intro conjI allI impI)
  show "od_keys r3 = od_keys r1" using g1 g2 by (simp add: refs_grow_def)
next
  fix s r assume "map_of r1 s = Some r"
  then obtain r' where r': "map_of r2 s = Some r'" "groups_grow r r'" using g1 unfolding refs_grow_def by blast
  then obtain r'' where "map_of r3 s = Some r''" "groups_grow r' r''" using g2 unfolding refs_grow_def by blast
  with r'(2) show "\<exists>r''. map_of r3 s = Some r'' \<and> groups_grow r r''" by (blast intro: groups_grow_trans)
qed

lemma reference_step_cases:
  "reference_step st a refs req = Inr refs' \<Longrightarrow>
   \<exists>s r. resolves st a (fst req) s \<and> map_of refs s = Some r \<and> refs' = od_set s (union_of r (snd req)) refs"
  by (auto simp: reference_step_def resolves_def split: prod.splits option.splits)

lemma reference_step_grow: "reference_step st a refs req = Inr refs' \<Longrightarrow> refs_grow refs refs'"
proof -
  assume "reference_step st a refs req = Inr refs'"
  then obtain s r where r: "map_of refs s = Some r" and refs': "refs' = od_set s (union_of r (snd req)) refs"
    by (blast dest: reference_step_cases)
  have "s \<in> set (od_keys refs)" using map_of_SomeD [OF r] by force
  then have "od_keys refs' = od_keys refs" unfolding refs' by (rule od_set_present)
  moreover have "groups_grow r (union_of r (snd req))"
    by (auto simp: groups_grow_def union_of_def all_input_groups_def)
  moreover have "groups_grow r0 r0" for r0 by (simp add: groups_grow_def)
  ultimately show ?thesis using r unfolding refs' refs_grow_def by auto
qed

lemma resolves_unique: "resolves st a dn s \<Longrightarrow> resolves st a dn s' \<Longrightarrow> s = s'"
  by (auto simp: resolves_def split: option.splits)

lemma reference_step_covers: "reference_step st a refs req = Inr refs' \<Longrightarrow> covered st a req refs'"
  by (drule reference_step_cases)
     (auto simp: covered_def union_of_def all_input_groups_def dest: resolves_unique)

lemma covered_grow:
  assumes c: "covered st a req refs" and g: "refs_grow refs refs'"
  shows "covered st a req refs'"
proof -
  obtain dn groups where req: "req = (dn, groups)" by fastforce
  show ?thesis unfolding covered_def req prod.case
  proof (intro allI impI)
    fix s assume "resolves st a dn s"
    with c obtain r where r: "map_of refs s = Some r" "r = all_input_groups \<or> (groups \<subseteq> r \<and> ''*'' \<notin> groups)"
      unfolding covered_def req by auto
    with g obtain r' where "map_of refs' s = Some r'" "groups_grow r r'" unfolding refs_grow_def by blast
    with r(2) show "\<exists>r'. map_of refs' s = Some r' \<and> (r' = all_input_groups \<or> (groups \<subseteq> r' \<and> ''*'' \<notin> groups))"
      unfolding groups_grow_def by blast
  qed
qed

lemma references_grow: "foldM (reference_step st a) refs reqs = Inr refs' \<Longrightarrow> refs_grow refs refs'"
proof (erule foldM_invariant)
  fix c z c' assume "reference_step st a c z = Inr c'" "refs_grow refs c"
  then show "refs_grow refs c'" using refs_grow_trans [OF _ reference_step_grow] by blast
qed (rule refs_grow_refl)

lemma references_cover:
  "foldM (reference_step st a) refs reqs = Inr refs' \<Longrightarrow> \<forall>req \<in> set reqs. covered st a req refs'"
proof (erule foldM_stable)
  fix c z c' assume "reference_step st a c z = Inr c'"
  then show "covered st a z c'" by (rule reference_step_covers)
next
  fix c z c' y assume "reference_step st a c z = Inr c'" "covered st a y c"
  then show "covered st a y c'" using covered_grow [OF _ reference_step_grow] by blast
qed

lemma referenced_dependencies_sound:
  assumes "referenced_dependencies st a igs deps = Inr refs"
  shows "od_keys refs = deps \<and>
    (\<forall>(gn, g) \<in> set igs. \<forall>reqs. ig_requires g = Requires reqs \<longrightarrow> (\<forall>req \<in> set reqs. covered st a req refs))"
proof (cases "src_declared a")
  case None
  then show ?thesis using assms
    by (auto simp: referenced_dependencies_def covered_def resolves_def comp_def)
next
  case (Some decls)
  let ?f = "\<lambda>refs (_, g). case ig_requires g of RequiresAbsent \<Rightarrow> Inl AttributeError | RequiresNone \<Rightarrow> Inr refs
              | Requires reqs \<Rightarrow> foldM (reference_step st a) refs reqs"
  let ?Q = "\<lambda>x refs. case x of (gn, g) \<Rightarrow> \<forall>reqs. ig_requires g = Requires reqs \<longrightarrow> (\<forall>req \<in> set reqs. covered st a req refs)"
  have run: "foldM ?f (map (\<lambda>s. (s, {})) deps) igs = Inr refs"
    using assms Some by (simp add: referenced_dependencies_def)
  have step_grow: "refs_grow r r'" if "?f r x = Inr r'" for r x r'
    using that by (cases x) (auto split: group_requires.splits intro: refs_grow_refl references_grow)
  have "refs_grow (map (\<lambda>s. (s, {})) deps) refs"
    using run
  proof (rule foldM_invariant)
    fix c z c' assume "?f c z = Inr c'" "refs_grow (map (\<lambda>s. (s, {})) deps) c"
    then show "refs_grow (map (\<lambda>s. (s, {})) deps) c'" using refs_grow_trans [OF _ step_grow] by blast
  qed (rule refs_grow_refl)
  then have keys: "od_keys refs = deps" by (simp add: refs_grow_def comp_def)
  have "\<forall>x \<in> set igs. ?Q x refs"
    using run
  proof (rule foldM_stable)
    fix r x r' assume "?f r x = Inr r'"
    then show "?Q x r'" by (cases x) (auto split: group_requires.splits dest: references_cover)
  next
    fix r x r' y assume "?f r x = Inr r'" "?Q y r"
    with step_grow [OF this(1)] show "?Q y r'" by (cases y) (auto intro: covered_grow)
  qed
  with keys show ?thesis by blast
qed


lemma unreferenced_message_sound:
  assumes refs: "referenced_dependencies st a igs deps = Inr refs" and dist: "distinct deps"
    and m: "m \<in> set (unreferenced_messages level a refs)"
  shows "\<exists>s gs. m = MsgUnreferenced level (src_id a) (src_id s) gs \<and> s \<in> set deps \<and> gs \<noteq> [] \<and>
           sorted gs \<and> distinct gs \<and> set gs \<subseteq> declared_groups s \<and>
           (\<forall>(gn, g) \<in> set igs. \<forall>reqs dn groups. ig_requires g = Requires reqs \<and> (dn, groups) \<in> set reqs \<and>
              resolves st a dn s \<longrightarrow> ''*'' \<notin> groups \<and> (\<forall>x \<in> set gs. x \<notin> groups))"
proof -
  from referenced_dependencies_sound [OF refs] have keys: "od_keys refs = deps"
    and cov: "\<forall>(gn, g) \<in> set igs. \<forall>reqs. ig_requires g = Requires reqs \<longrightarrow> (\<forall>req \<in> set reqs. covered st a req refs)"
    by blast+
  from m obtain s r where sr: "(s, r) \<in> set refs" "r \<noteq> all_input_groups" "declared_groups s - r \<noteq> {}"
    and m_eq: "m = MsgUnreferenced level (src_id a) (src_id s) (sorted_list_of_set (declared_groups s - r))"
    by (auto simp: unreferenced_messages_def split: if_splits)
  have fin: "finite (declared_groups s - r)" by (simp add: declared_groups_def no_input_groups_def split: option.splits)
  have look: "map_of refs s = Some r" using sr(1) keys dist by (simp add: map_of_is_SomeI)
  have "''*'' \<notin> groups \<and> (\<forall>x \<in> set (sorted_list_of_set (declared_groups s - r)). x \<notin> groups)"
    if t: "(gn, g) \<in> set igs" "ig_requires g = Requires reqs" "(dn, groups) \<in> set reqs" "resolves st a dn s"
    for gn g reqs dn groups
  proof -
    from cov t(1-3) have "covered st a (dn, groups) refs" by fastforce
    then obtain r' where "map_of refs s = Some r'" "r' = all_input_groups \<or> (groups \<subseteq> r' \<and> ''*'' \<notin> groups)"
      using t(4) unfolding covered_def by auto
    with look sr(2) have "groups \<subseteq> r \<and> ''*'' \<notin> groups" by simp
    with fin show ?thesis by auto
  qed
  moreover have "s \<in> set deps" using sr(1) keys by force
  ultimately show ?thesis using m_eq sr(3) fin
    by (intro exI [of _ s] exI [of _ "sorted_list_of_set (declared_groups s - r)"]) auto
qed

lemma report_loop_sound:
  "report_loop level st xs rep dg = (Inr b, dg') \<Longrightarrow>
   \<exists>ms. dg' = log_all ms dg \<and> (b \<longleftrightarrow> rep \<or> ms \<noteq> []) \<and>
     (\<forall>m \<in> set ms. \<exists>a deps igs refs. (a, deps) \<in> set xs \<and> src_input_groups a = Some igs \<and>
        referenced_dependencies st a igs deps = Inr refs \<and> m \<in> set (unreferenced_messages level a refs))"
proof (induction xs arbitrary: rep dg)
  case Nil
  then show ?case by (intro exI [of _ "[]"]) simp
next
  case (Cons x xs)
  obtain a deps where x: "x = (a, deps)" by fastforce
  show ?case
  proof (cases "src_input_groups a")
    case None
    with Cons.prems x have "report_loop level st xs rep dg = (Inr b, dg')" by simp
    from Cons.IH [OF this] obtain ms where ms: "dg' = log_all ms dg" "b \<longleftrightarrow> rep \<or> ms \<noteq> []"
      "\<forall>m \<in> set ms. \<exists>a deps igs refs. (a, deps) \<in> set xs \<and> src_input_groups a = Some igs \<and>
        referenced_dependencies st a igs deps = Inr refs \<and> m \<in> set (unreferenced_messages level a refs)"
      by blast
    show ?thesis
    proof (intro exI [of _ ms] conjI)
      show "\<forall>m \<in> set ms. \<exists>a deps igs refs. (a, deps) \<in> set (x # xs) \<and> src_input_groups a = Some igs \<and>
        referenced_dependencies st a igs deps = Inr refs \<and> m \<in> set (unreferenced_messages level a refs)"
        using ms(3) by fastforce
    qed (use ms in simp_all)
  next
    case (Some igs)
    then obtain refs where refs: "referenced_dependencies st a igs deps = Inr refs"
      using Cons.prems x by (cases "referenced_dependencies st a igs deps") simp_all
    let ?ms = "unreferenced_messages level a refs"
    have "report_loop level st xs (rep \<or> ?ms \<noteq> []) (log_all ?ms dg) = (Inr b, dg')"
      using Cons.prems x Some refs by (simp add: Let_def)
    from Cons.IH [OF this] obtain ms where ms: "dg' = log_all ms (log_all ?ms dg)" "b \<longleftrightarrow> (rep \<or> ?ms \<noteq> []) \<or> ms \<noteq> []"
      "\<forall>m \<in> set ms. \<exists>a deps igs refs. (a, deps) \<in> set xs \<and> src_input_groups a = Some igs \<and>
        referenced_dependencies st a igs deps = Inr refs \<and> m \<in> set (unreferenced_messages level a refs)"
      by blast
    show ?thesis
    proof (intro exI [of _ "?ms @ ms"] conjI)
      show "dg' = log_all (?ms @ ms) dg" using ms(1) by (simp add: log_all_append)
      show "b \<longleftrightarrow> rep \<or> ?ms @ ms \<noteq> []" using ms(2) by auto
      show "\<forall>m \<in> set (?ms @ ms). \<exists>a' deps' igs' refs'. (a', deps') \<in> set (x # xs) \<and> src_input_groups a' = Some igs' \<and>
        referenced_dependencies st a' igs' deps' = Inr refs' \<and> m \<in> set (unreferenced_messages level a' refs')"
      proof
        fix m assume "m \<in> set (?ms @ ms)"
        then consider (here) "m \<in> set ?ms" | (later) "m \<in> set ms" by auto
        then show "\<exists>a' deps' igs' refs'. (a', deps') \<in> set (x # xs) \<and> src_input_groups a' = Some igs' \<and>
          referenced_dependencies st a' igs' deps' = Inr refs' \<and> m \<in> set (unreferenced_messages level a' refs')"
        proof cases
          case here
          then show ?thesis using x Some refs by (intro exI [of _ a] exI [of _ deps] exI [of _ igs] exI [of _ refs]) simp
        next
          case later
          with ms(3) obtain a' deps' igs' refs' where "(a', deps') \<in> set xs" "src_input_groups a' = Some igs'"
            "referenced_dependencies st a' igs' deps' = Inr refs'" "m \<in> set (unreferenced_messages level a' refs')"
            by blast
          then show ?thesis by (intro exI [of _ a'] exI [of _ deps'] exI [of _ igs'] exI [of _ refs']) simp
        qed
      qed
    qed
  qed
qed

text \<open>C38: when \<open>report_unreferenced_input_groups\<close> returns, it returned \<open>True\<close>
  exactly when it logged a message, and every message it logged names an app of the graph
  with input groups, one of its dependency sources and a sorted, non-empty list of input
  groups that the dependency declares and that no input group of the app requires of it
  (and then none requires ALL of it).\<close>

theorem report_unreferenced_sound:
  assumes run: "report_unreferenced_input_groups level st = (Inr b, dg')"
    and sets: "\<forall>(a, deps) \<in> set (gs_graph st). distinct deps"
  shows "\<exists>ms. dg' = log_all ms (gs_diag st) \<and> (b \<longleftrightarrow> ms \<noteq> []) \<and>
    (\<forall>m \<in> set ms. \<exists>a deps igs s gs. (a, deps) \<in> set (gs_graph st) \<and> src_input_groups a = Some igs \<and>
       m = MsgUnreferenced level (src_id a) (src_id s) gs \<and> s \<in> set deps \<and> gs \<noteq> [] \<and>
       sorted gs \<and> distinct gs \<and> set gs \<subseteq> declared_groups s \<and>
       (\<forall>(gn, g) \<in> set igs. \<forall>reqs dn groups. ig_requires g = Requires reqs \<and> (dn, groups) \<in> set reqs \<and>
          resolves st a dn s \<longrightarrow> ''*'' \<notin> groups \<and> (\<forall>x \<in> set gs. x \<notin> groups)))"
proof -
  from report_loop_sound [OF run [unfolded report_unreferenced_input_groups_def]]
  obtain ms where ms: "dg' = log_all ms (gs_diag st)" "b \<longleftrightarrow> ms \<noteq> []"
    "\<forall>m \<in> set ms. \<exists>a deps igs refs. (a, deps) \<in> set (gs_graph st) \<and> src_input_groups a = Some igs \<and>
        referenced_dependencies st a igs deps = Inr refs \<and> m \<in> set (unreferenced_messages level a refs)"
    by auto
  show ?thesis
  proof (intro exI [of _ ms] conjI ballI)
    fix m assume "m \<in> set ms"
    with ms(3) obtain a deps igs refs where ad: "(a, deps) \<in> set (gs_graph st)" and ig: "src_input_groups a = Some igs"
      and refs: "referenced_dependencies st a igs deps = Inr refs" and mm: "m \<in> set (unreferenced_messages level a refs)"
      by blast
    have "distinct deps" using sets ad by auto
    from unreferenced_message_sound [OF refs this mm] obtain s gs where
      sg: "m = MsgUnreferenced level (src_id a) (src_id s) gs" "s \<in> set deps" "gs \<noteq> []" "sorted gs" "distinct gs"
        "set gs \<subseteq> declared_groups s"
        "\<forall>(gn, g) \<in> set igs. \<forall>reqs dn groups. ig_requires g = Requires reqs \<and> (dn, groups) \<in> set reqs \<and>
           resolves st a dn s \<longrightarrow> ''*'' \<notin> groups \<and> (\<forall>x \<in> set gs. x \<notin> groups)"
      by blast
    show "\<exists>a deps igs s gs. (a, deps) \<in> set (gs_graph st) \<and> src_input_groups a = Some igs \<and>
       m = MsgUnreferenced level (src_id a) (src_id s) gs \<and> s \<in> set deps \<and> gs \<noteq> [] \<and>
       sorted gs \<and> distinct gs \<and> set gs \<subseteq> declared_groups s \<and>
       (\<forall>(gn, g) \<in> set igs. \<forall>reqs dn groups. ig_requires g = Requires reqs \<and> (dn, groups) \<in> set reqs \<and>
          resolves st a dn s \<longrightarrow> ''*'' \<notin> groups \<and> (\<forall>x \<in> set gs. x \<notin> groups))"
      by (intro exI [of _ a] exI [of _ deps] exI [of _ igs] exI [of _ s] exI [of _ gs] conjI ad ig sg)
  qed (use ms in simp_all)
qed

theorem report_unreferenced_sound_witness:
  "report_unreferenced_input_groups 30 ex_groups_graph = (Inr True, snd (report_unreferenced_input_groups 30 ex_groups_graph))
   \<and> list_all (\<lambda>(a, deps). distinct deps) (gs_graph ex_groups_graph)
   \<and> (\<exists>ms. snd (report_unreferenced_input_groups 30 ex_groups_graph) = log_all ms (gs_diag ex_groups_graph) \<and> ms \<noteq> [])"
proof -
  have h1: "report_unreferenced_input_groups 30 ex_groups_graph = (Inr True, snd (report_unreferenced_input_groups 30 ex_groups_graph))"
    by code_simp
  have h2': "list_all (\<lambda>(a, deps). distinct deps) (gs_graph ex_groups_graph)" by code_simp
  then have h2: "\<forall>(a, deps) \<in> set (gs_graph ex_groups_graph). distinct deps" by (simp add: list_all_iff)
  from report_unreferenced_sound [OF h1 h2] h1 h2' show ?thesis by auto
qed

lemma reference_steps_error:
  "foldM (reference_step st a) refs reqs = Inl e \<Longrightarrow> src_declared a \<noteq> None \<Longrightarrow> e = KeyError"
  by (drule foldM_Inl_member) (auto simp: reference_step_def split: option.splits)

lemma reference_steps_unpinned:
  "src_declared a = Some decls \<Longrightarrow> map_of decls dn = Some d \<Longrightarrow> dep_package d = None \<Longrightarrow>
   (dn, groups) \<in> set reqs \<Longrightarrow> foldM (reference_step st a) refs reqs \<noteq> Inr r"
  by (auto dest: foldM_Inr_member simp: reference_step_def)

text \<open>C39 (finding): when an input group of an app requires a dependency that the
  manifest declares without a package (an optional dependency neither pinned nor
  installed, or one resolved only through the installed packages), and no input group of
  the app lacks the \<open>requires\<close> attribute, \<open>report_unreferenced_input_groups\<close> raises
  \<open>KeyError\<close> (\<open>repository_sources[None]\<close>) at that app, logging nothing, although
  construction accepted the graph.\<close>

theorem report_optional_requirement_raises:
  assumes "gs_graph st = (a, deps) # rest" "src_input_groups a = Some igs"
    and "src_declared a = Some decls" "map_of decls dn = Some d" "dep_package d = None"
    and "(gn, g) \<in> set igs" "ig_requires g = Requires reqs" "(dn, groups) \<in> set reqs"
    and "list_all (\<lambda>(_, g). ig_requires g \<noteq> RequiresAbsent) igs"
  shows "report_unreferenced_input_groups level st = (Inl KeyError, gs_diag st)"
proof -
  let ?f = "\<lambda>refs (_, g). case ig_requires g of RequiresAbsent \<Rightarrow> Inl AttributeError | RequiresNone \<Rightarrow> Inr refs
              | Requires reqs \<Rightarrow> foldM (reference_step st a) refs reqs"
  have run: "referenced_dependencies st a igs deps = foldM ?f (map (\<lambda>s. (s, {})) deps) igs"
    using assms(3) by (simp add: referenced_dependencies_def)
  have notinr: "foldM ?f (map (\<lambda>s. (s, {})) deps) igs \<noteq> Inr r" for r
  proof
    assume "foldM ?f (map (\<lambda>s. (s, {})) deps) igs = Inr r"
    from foldM_Inr_member [OF this assms(6)] obtain c c' where "?f c (gn, g) = Inr c'" by blast
    with assms(7) reference_steps_unpinned [OF assms(3-5,8)] show False by simp
  qed
  have "foldM ?f (map (\<lambda>s. (s, {})) deps) igs = Inl KeyError"
  proof (cases "foldM ?f (map (\<lambda>s. (s, {})) deps) igs")
    case (Inl e)
    from foldM_Inl_member [OF Inl] obtain c x where x: "x \<in> set igs" "?f c x = Inl e" by blast
    obtain xn xg where xe: "x = (xn, xg)" by fastforce
    with x(1) assms(9) have "ig_requires xg \<noteq> RequiresAbsent" by (auto simp: list_all_iff)
    with x(2) xe assms(3) have "e = KeyError"
      by (cases "ig_requires xg") (auto dest: reference_steps_error)
    with Inl show ?thesis by simp
  qed (use notinr in blast)
  with run assms(1,2) show ?thesis by (simp add: report_unreferenced_input_groups_def)
qed

theorem report_optional_requirement_raises_witness:
  "report_unreferenced_input_groups 30 (build_graph [] [] [] diagnostics0 ex_optional_app)
     = (Inl KeyError, gs_diag (build_graph [] [] [] diagnostics0 ex_optional_app))"
proof -
  let ?g = "\<lparr>ig_requires = Requires [(''opt'', {''x''})]\<rparr>"
  let ?d = "\<lparr>dep_package = None, dep_version = AnyVersion, dep_optional = True\<rparr>"
  have h1: "gs_graph (build_graph [] [] [] diagnostics0 ex_optional_app) = [(ex_optional_app, [])]" by code_simp
  have h2: "src_input_groups ex_optional_app = Some [(''g1'', ?g)]" by (simp add: ex_optional_app_def)
  have h3: "src_declared ex_optional_app = Some [(''opt'', ?d)]" by (simp add: ex_optional_app_def ex_src_def)
  have h4: "map_of [(''opt'', ?d)] ''opt'' = Some ?d" by simp
  have h5: "dep_package ?d = None" by simp
  have h6: "(''g1'', ?g) \<in> set [(''g1'', ?g)]" by simp
  have h7: "ig_requires ?g = Requires [(''opt'', {''x''})]" by simp
  have h8: "(''opt'', {''x''}) \<in> set [(''opt'', {''x''})]" by simp
  have h9: "list_all (\<lambda>(_, g). ig_requires g \<noteq> RequiresAbsent) [(''g1'', ?g)]" by simp
  show ?thesis by (rule report_optional_requirement_raises [OF h1 h2 h3 h4 h5 h6 h7 h8 h9])
qed

text \<open>\<open>get_deployment_specifications\<close> for that input group raises the same \<open>KeyError\<close>.\<close>

lemma gds_optional_requirement_example:
  "get_deployment_specifications_graph 1000 (build_graph [] [] [] diagnostics0 ex_optional_app) ex_optional_app
       \<lparr>ds_name = ''fwd'', ds_workload = {''forwarder''}, ds_input_groups = Some {''g1''}\<rparr> = Some (Inl KeyError)"
  by code_simp

end
