(* ===== verification/ServerClassUpdate.thy ===== *)
theory ServerClassUpdate
  imports ServerClass DeploymentPackage
begin

text \<open>
  \<open>AppServerClass.describe_app\<close> and \<open>AppServerClassUpdate\<close> (src/slim/app/_server_class.py,
  lines 135--144 and 574--621) and \<open>AppServerClassCollection.partition\<close> (lines
  455--484): the update of one server class for one app, and its
  \<open>save\<close>, which partitions the installations added into deployment packages and records an
  installation action in the payload.  What \<open>AppInstallationGraph.describe_installation\<close>
  returns and what \<open>AppInstallation.partition\<close> writes are defined outside src/ and are
  parameters; the tar archive, the temporary file and the removal of sub-packages are I/O.
\<close>

section \<open>describe_app\<close>

record server_class_update =
  upd_server_class :: server_class
  upd_removals :: "installation list option"
  upd_additions :: "installation list option"

text \<open>\<open>describe_app(app_id)\<close> (lines 135--144): no update when the app is not installed on
  the server class, else the installations \<open>describe_installation\<close> lists as additions.\<close>

definition describe_app ::
  "(app_installations \<Rightarrow> installation \<Rightarrow> installation list) \<Rightarrow> server_class \<Rightarrow> string \<Rightarrow> server_class_update option" where
  "describe_app describe_installation sc app_id =
     (case map_of (sc_apps sc) app_id of
        None \<Rightarrow> None
      | Some inst \<Rightarrow> Some \<lparr>upd_server_class = sc, upd_removals = None,
                          upd_additions = Some (describe_installation (sc_apps sc) inst)\<rparr>)"

section \<open>save\<close>

text \<open>An entry of \<open>payload.installation_actions\<close>: \<open>serverClass\<close>, \<open>remove\<close> and \<open>add\<close>.\<close>

type_synonym installation_action_entry = "string \<times> string list option \<times> string option"

text \<open>\<open>posixpath.abspath\<close> relative to the working directory \<open>cwd\<close>.\<close>

definition path_abspath :: "string \<Rightarrow> string \<Rightarrow> string" where
  "path_abspath cwd p = path_normpath (path_join cwd p)"

text \<open>The loop over the additions when \<open>partition_all\<close> (lines 598--604): the number of
  installations whose \<open>partition(output_dir)\<close> produced a sub-package.\<close>

definition sub_package_count :: "(installation \<Rightarrow> string option) \<Rightarrow> installation list \<Rightarrow> nat" where
  "sub_package_count part adds = length (filter (\<lambda>i. py_truthy (part i)) adds)"

text \<open>The local \<open>add\<close> of \<open>AppServerClassUpdate.save(app_source, output_dir,
  partition_all)\<close> (lines 588--615), with \<open>prefix\<close> the app's \<open>package_prefix\<close>.\<close>

definition save_add ::
  "(installation \<Rightarrow> string option) \<Rightarrow> string \<Rightarrow> string \<Rightarrow> string \<Rightarrow> server_class_update \<Rightarrow> app_source \<Rightarrow> bool \<Rightarrow>
   string option" where
  "save_add part cwd output_dir prefix u src partition_all =
     (case upd_additions u of
        None \<Rightarrow> None
      | Some adds \<Rightarrow>
          (let arcname = prefix @ ''-'' @ sc_name (upd_server_class u) in
           if partition_all
           then (if sub_package_count part adds = 0 then None
                 else Some (path_abspath cwd (path_join output_dir (arcname @ ''.tar.gz''))))
           else (case find (\<lambda>i. inst_id i = src_id src) adds of
                   None \<Rightarrow> None
                 | Some i \<Rightarrow> part i)))"

text \<open>\<open>save\<close> (lines 582--621) appends its installation action to the payload and has no
  \<open>return\<close> statement: its value is always \<open>None\<close>.\<close>

definition update_save ::
  "(installation \<Rightarrow> string option) \<Rightarrow> string \<Rightarrow> string \<Rightarrow> string \<Rightarrow> server_class_update \<Rightarrow> app_source \<Rightarrow> bool \<Rightarrow>
   installation_action_entry list \<Rightarrow> string option \<times> installation_action_entry list" where
  "update_save part cwd output_dir prefix u src partition_all actions =
     (None, actions @ [(sc_name (upd_server_class u), map_option (map inst_id) (upd_removals u),
                        save_add part cwd output_dir prefix u src partition_all)])"

section \<open>partition\<close>

text \<open>One server class of \<open>AppServerClassCollection.partition\<close> (lines 463--477), with the
  services of \<open>AppInstallationGraph\<close> and \<open>AppInstallation\<close> as parameters.  The
  accumulator holds \<open>deployment_packages\<close>, the diagnostics and the payload's installation
  actions.\<close>

definition partition_step ::
  "sc_env \<Rightarrow> (app_installations \<Rightarrow> installation \<Rightarrow> installation list) \<Rightarrow> (installation \<Rightarrow> string option) \<Rightarrow>
   string \<Rightarrow> string \<Rightarrow> string \<Rightarrow> bool \<Rightarrow> app_source \<Rightarrow>
   string list \<times> diagnostics \<times> installation_action_entry list \<Rightarrow> string \<times> server_class \<Rightarrow>
   string list \<times> diagnostics \<times> installation_action_entry list" where
  "partition_step env describe_installation part cwd output_dir prefix partition_all src acc entry =
     (case (acc, entry) of ((pkgs, dg, actions), (name, sc)) \<Rightarrow>
       (let tw = target_workloads env src in
        case describe_app describe_installation sc (src_id src) of
          None \<Rightarrow> (if ''*'' \<notin> set tw \<and> name \<in> set tw then (pkgs, log (WarnTargetedMissing name) dg, actions)
                   else (pkgs, dg, actions))
        | Some u \<Rightarrow>
            if ''*'' \<notin> set tw \<and> name \<notin> set tw then (pkgs, log (WarnNonTargeted name) dg, actions)
            else (case update_save part cwd output_dir prefix u src partition_all actions of
                    (None, actions') \<Rightarrow> (pkgs, log (WarnTargetedMissing name) dg, actions')
                  | (Some p, actions') \<Rightarrow> (pkgs @ [p], dg, actions'))))"

text \<open>\<open>AppServerClassCollection.partition\<close> (lines 455--484).  Writing
  installation-actions.json is I/O.\<close>

definition coll_partition ::
  "sc_env \<Rightarrow> (app_installations \<Rightarrow> installation \<Rightarrow> installation list) \<Rightarrow> (installation \<Rightarrow> string option) \<Rightarrow>
   string \<Rightarrow> string \<Rightarrow> string \<Rightarrow> bool \<Rightarrow> app_source \<Rightarrow> sc_collection \<Rightarrow> diagnostics \<Rightarrow> installation_action_entry list \<Rightarrow>
   string list \<times> diagnostics \<times> installation_action_entry list" where
  "coll_partition env describe_installation part cwd output_dir prefix partition_all src c dg actions =
     foldl (partition_step env describe_installation part cwd output_dir prefix partition_all src) ([], dg, actions)
       (coll_classes c)"

section \<open>Scenario\<close>

definition ex_update :: server_class_update where
  "ex_update = \<lparr>upd_server_class = ex_class ''_search_heads'' [], upd_removals = None,
     upd_additions = Some [ex_inst ''pkg-a'' [], ex_inst ''pkg-b'' []]\<rparr>"

section \<open>Properties of save\<close>

text \<open>With \<open>partition_all\<close>, a package is added exactly when some installation produced a
  sub-package, and it is the archive named after the app and the server class.\<close>

lemma save_add_partition_all:
  "upd_additions u = Some adds \<Longrightarrow>
   save_add part cwd output_dir prefix u src True =
     (if \<exists>i \<in> set adds. py_truthy (part i)
      then Some (path_abspath cwd (path_join output_dir (prefix @ ''-'' @ sc_name (upd_server_class u) @ ''.tar.gz'')))
      else None)"
  by (simp add: save_add_def sub_package_count_def Let_def filter_empty_conv)

text \<open>Without \<open>partition_all\<close>, the package added is the partition of the app's own
  installation, the first addition with the app's id.\<close>

lemma save_add_own_installation:
  assumes "upd_additions u = Some (pre @ i # post)" "inst_id i = src_id src"
    and "\<forall>j \<in> set pre. inst_id j \<noteq> src_id src"
  shows "save_add part cwd output_dir prefix u src False = part i"
proof -
  have "find (\<lambda>j. inst_id j = src_id src) (pre @ i # post) = Some i"
    using assms(2,3) by (induction pre) auto
  then show ?thesis using assms(1) by (simp add: save_add_def Let_def)
qed

text \<open>No additions, no package.\<close>

lemma save_add_no_additions: "upd_additions u = None \<Longrightarrow> save_add part cwd output_dir prefix u src pa = None"
  by (simp add: save_add_def)

lemma update_save_example:
  "update_save (\<lambda>i. if inst_id i = ''pkg-b'' then Some ''/out/pkg-b-sh.tgz'' else None) ''/work'' ''out'' ''pkg-a-1.0.0''
     ex_update (ex_src ''pkg-a'' []) True []
   = (None, [(''_search_heads'', None, Some ''/work/out/pkg-a-1.0.0-_search_heads.tar.gz'')])"
  by code_simp

section \<open>Properties of partition\<close>

lemma partition_loop:
  "foldl (partition_step env di part cwd out prefix pa src) (pkgs, dg, acts) cs = (pkgs', dg', acts') \<Longrightarrow>
   pkgs' = pkgs \<and> set (dg_log dg) \<subseteq> set (dg_log dg') \<and> set acts \<subseteq> set acts' \<and>
   (\<forall>(name, sc) \<in> set cs. map_of (sc_apps sc) (src_id src) \<noteq> None \<and> targets (target_workloads env src) name \<longrightarrow>
      WarnTargetedMissing name \<in> set (dg_log dg') \<and>
      (sc_name sc, None, save_add part cwd out prefix (the (describe_app di sc (src_id src))) src pa) \<in> set acts')"
proof (induction cs arbitrary: pkgs dg acts)
  case (Cons e cs)
  obtain name sc where e: "e = (name, sc)" by fastforce
  obtain pkgs1 dg1 acts1 where step: "partition_step env di part cwd out prefix pa src (pkgs, dg, acts) (name, sc) = (pkgs1, dg1, acts1)"
    by (cases "partition_step env di part cwd out prefix pa src (pkgs, dg, acts) (name, sc)") auto
  have ih: "pkgs' = pkgs1 \<and> set (dg_log dg1) \<subseteq> set (dg_log dg') \<and> set acts1 \<subseteq> set acts' \<and>
   (\<forall>(name, sc) \<in> set cs. map_of (sc_apps sc) (src_id src) \<noteq> None \<and> targets (target_workloads env src) name \<longrightarrow>
      WarnTargetedMissing name \<in> set (dg_log dg') \<and>
      (sc_name sc, None, save_add part cwd out prefix (the (describe_app di sc (src_id src))) src pa) \<in> set acts')"
    using Cons.IH [of pkgs1 dg1 acts1] Cons.prems e step by simp
  have "pkgs1 = pkgs \<and> set (dg_log dg) \<subseteq> set (dg_log dg1) \<and> set acts \<subseteq> set acts1 \<and>
     (map_of (sc_apps sc) (src_id src) \<noteq> None \<and> targets (target_workloads env src) name \<longrightarrow>
      WarnTargetedMissing name \<in> set (dg_log dg1) \<and>
      (sc_name sc, None, save_add part cwd out prefix (the (describe_app di sc (src_id src))) src pa) \<in> set acts1)"
    using step by (auto simp: partition_step_def describe_app_def update_save_def targets_def log_def Let_def
        split: option.splits if_splits)
  with ih e show ?case by auto
qed simp



end
