(* ===== verification/Spec2Isabelle.thy ===== *)
theory Spec2Isabelle
  imports DeploymentSpec DependencyGraph FileReader SpecSchema SpecPropagation ServerClass DeploymentPackage GraphQueries ServerClassUpdate
begin

text \<open>
  Verification development of the deployment core of WatchGuard-Threat-Lab/slim.

  \<^bold>\<open>The program.\<close>  slim packages a Splunk app and its dependencies for deployment.
  \<open>AppDependencyGraph\<close> (src/slim/app/_deployment.py) resolves the dependencies an app
  declares into a graph of app sources, checks it for cycles and version conflicts and
  propagates a deployment specification (a name, a set of workloads and a set of input
  groups) from the root to its dependencies.  \<open>AppDeploymentSpecification\<close> (same file)
  is that specification, read through the JSON schema framework of
  src/slim/app/_internal/json_data.py.  \<open>AppServerClassCollection\<close>
  (src/slim/app/_server_class.py) keeps the installation graph: which apps are installed
  on which named server class; its actions add, set, update and remove build a dependency
  graph, propagate specifications and edit the server classes.  \<open>FileReader\<close>
  (src/slim/app/_internal/file_reader.py) reads configuration files line by line.
  \<open>AppDeploymentPackage\<close> (_deployment.py) turns an app and one deployment specification
  into a package: the configuration kept for the workload, the asset files left after the
  workload's exclusion rules, and whether the package is empty.  A constructed dependency
  graph is queried by \<open>traverse\<close> (a visitor over its sources), \<open>description\<close> (an
  npm-style text) and \<open>report_unreferenced_input_groups\<close>.

  \<^bold>\<open>Theories.\<close>
  \<^item> \<open>Prelude\<close>: Python containers (OrderedDict as association list with \<open>od_set\<close>,
    OrderedSet, deque with \<open>dq_pop\<close>/\<open>dq_extendleft\<close>), exceptions as \<open>py_error\<close>, loops
    that may raise (\<open>foldM\<close>, \<open>mapM\<close>, with an invariant rule and a rule for
    properties each step establishes and later steps keep), the logger and payload as one \<open>diagnostics\<close>
    record whose \<open>error_count\<close> is \<open>SlimLogger.error_count()\<close>, decoded JSON, and
    \<open>json_object\<close> for the dictionary \<open>json.load\<close> builds from an object; generic facts on
    reachability along a finite relation.
  \<^item> \<open>DeploymentSpec\<close>: \<open>AppDeploymentSpecification\<close> and \<open>_union_of\<close>: the converters
    (\<open>decode_spec\<close>), \<open>from_forwarder_workloads\<close> and \<open>get_deployment_specifications\<close>
    with its combining branch step by step (\<open>combine_collect\<close>, \<open>del_all\<close>, the appended
    \<open>search_head_indexers\<close>).  C1: the algebra of \<open>union_of\<close>; C2--C3: well-formed
    specifications; C4: every specification of \<open>from_forwarder_workloads\<close> names a server
    class as workload; C5: duplicate names; C6: for any two specifications to merge, the
    ascending deletion removes the wrong one or raises \<open>IndexError\<close>; C7: every safe name
    followed by a newline is accepted.
  \<^item> \<open>CycleDetection\<close>: \<open>_is_cyclic\<close> as mutually recursive \<open>cyc_visit\<close>/\<open>cyc_visit_list\<close>
    with fuel.  C8: the fuel given (one more than the number of nodes) suffices and the
    answer is exactly the existence of a cycle.
  \<^item> \<open>DependencyGraph\<close>: \<open>__init__\<close>, \<open>_add_source\<close> (a \<open>function\<close> terminating by the
    measure \<open>graph_loop_rel\<close>), \<open>_get_dependencies\<close>, \<open>_check_dependencies\<close>.  An app
    source keeps the dependencies its manifest declares (\<open>src_declared\<close>, read by the
    input-group code) apart from the OS-filtered list (\<open>src_dependencies\<close>, read by
    \<open>_get_dependencies\<close>); an input group's \<open>requires\<close> is absent, \<open>None\<close> or a
    dictionary (\<open>group_requires\<close>).  C9: the graph is closed under its edges; C10: what the
    constructor logs; C11: the root's dependencies come first, in order (first-in
    first-out); C12: optional dependencies.
  \<^item> \<open>FileReader\<close>: the reader record, \<open>__next__\<close>, \<open>put_back\<close>, \<open>read_continuation\<close> and
    \<open>__iter__\<close> (measure: lines left), and runs of calls (\<open>fr_run\<close>).  C13: the line
    counter invariant; C14: the put-back round trip; C15: iteration; C16: after an empty
    put-back, every later \<open>put_back\<close> fails, whatever calls come between.
  \<^item> \<open>JsonData\<close>: \<open>JsonValue\<close>, the five data types and \<open>JsonSchema.convert_from\<close>, with
    \<open>validate\<close> and \<open>convert_from\<close> as mutually recursive functions terminating on the size
    of the schema.  \<open>validate\<close> returns its outcome or the exception it raises
    (\<open>enumerate\<close> on a non-iterable value raises \<open>TypeError\<close>, \<open>not_iterable\<close>) with the
    messages passed to \<open>onerror\<close> (\<open>vresult\<close>).  C17: \<open>validate\<close> reports exactly its
    failures and raises only that \<open>TypeError\<close>; C18--C20: the lost message, any object
    accepted as an array of strings, and every dynamic key holding a brace field.
  \<^item> \<open>SpecSchema\<close>: \<open>AppDeploymentSpecification.schema\<close> on decoded JSON.  C21: it refines
    \<open>decode_spec\<close>.
  \<^item> \<open>SpecPropagation\<close>: \<open>get_deployment_specifications\<close> of the graph with fuel for its
    unguarded recursion, reading each group's \<open>requires\<close> (\<open>None\<close> raises \<open>TypeError\<close>).
    C22: on acyclic graphs enough fuel gives a result; C23: groups NONE never become ALL.
  \<^item> \<open>ServerClass\<close>: \<open>AppServerClass\<close> (\<open>sc_init\<close>, \<open>sc_to_dict\<close>, \<open>sc_remove_app\<close>,
    \<open>sc_from_spec\<close>) and \<open>AppServerClassCollection\<close> (\<open>coll_init\<close>, \<open>coll_load\<close>,
    \<open>coll_save\<close>, \<open>coll_reload\<close>, \<open>coll_add\<close>, \<open>coll_update_app\<close>,
    \<open>coll_remove_app\<close>, \<open>coll_update_installation\<close>), each loop a \<open>foldM\<close> over the Python
    loop's items.  \<open>coll_add\<close> calls the model's \<open>app_dependency_graph\<close> and
    \<open>get_deployment_specifications_graph\<close>; the services of code outside src/ (AppSource,
    \<open>from_dependency_graph\<close>, deployment packages) are the fields of \<open>sc_env\<close>.  C24: the
    blocked removal of the design; C25: refinement of the abstract removal
    \<open>sc_without\<close>; C26: the save/load round trip; C27: the process-wide error test; C28:
    the untouched targeted server classes of \<open>update_app\<close> (whose target test is
    inverted: the lemma \<open>update_app_untargeted\<close> shows the app reaching an untargeted
    server class); C29: targeted creation in \<open>add\<close>; C30: a blocked removal in the
    \<open>set\<close> action keeps the other removals and adds nothing.  The invariant \<open>coll_wf\<close>
    (distinct server-class names, well-formed installations) is the hypothesis of C24
    and C26.
  \<^item> \<open>ServerClassUpdate\<close>: \<open>AppServerClass.describe_app\<close>, \<open>AppServerClassUpdate.save\<close>
    (\<open>update_save\<close>, with the local \<open>add\<close> as \<open>save_add\<close> and the partition of one
    installation a parameter) and \<open>AppServerClassCollection.partition\<close>
    (\<open>coll_partition\<close>).  \<open>save\<close> records one installation action whose \<open>add\<close> is the
    archive named after the app and the server class exactly when some installation
    produced a sub-package (\<open>partition_all\<close>), else the partition of the app's own
    installation, and it returns \<open>None\<close>.  C40: \<open>partition\<close> therefore returns no package
    and warns for every targeted server class holding the app.
  \<^item> \<open>DeploymentPackage\<close>: \<open>AppDeploymentPackage.__init__\<close> (\<open>app_deployment_package\<close>)
    and the \<open>posixpath\<close> functions it calls: identifiers, the partition of the
    configuration (\<open>partition_configuration\<close>), the exclusion rules and
    \<open>_get_excluded_filenames\<close>, the \<open>os.walk\<close> of \<open>_set_asset_filenames\<close> over a tree
    of \<open>fs_entry\<close> values (\<open>walk_dir\<close>, a \<open>function\<close> terminating on the size of the
    tree) and the pruning of empty directories (\<open>prune_empty\<close>, measure: assets left),
    \<open>_split_filename\<close> and \<open>_detect_is_empty\<close>.  C31: an app whose root entries are all
    excluded makes \<open>_set_asset_filenames\<close> raise \<open>KeyError\<close>; C32: exactly when
    \<open>_detect_is_empty\<close> fails to return; C33: only admitted settings are packaged; C34:
    every asset list under names starting with bin is judged empty.
  \<^item> \<open>GraphQueries\<close>: \<open>traverse\<close> (\<open>traverse_loop\<close>, a \<open>function\<close> terminating on the
    unvisited nodes, then the queue, with the visitor a function of the caller's state),
    \<open>_describe\<close> (\<open>describe_node\<close> with fuel) and \<open>description\<close>, and
    \<open>report_unreferenced_input_groups\<close> (\<open>report_loop\<close> over the graph, which keeps the
    messages logged before an exception).  C35: on a built graph \<open>traverse\<close> returns and
    visits each reachable source once; C36: a recursion limit above the number of sources
    plus the frames in use suffices for \<open>description\<close> on an acyclic graph; C37: for every
    dependency path, the indentation of its last line; C38: the report is exactly whether
    a message was logged, and each message lists only groups that nothing requires; C39:
    an input group requiring a dependency declared without a package raises \<open>KeyError\<close>.

  \<^bold>\<open>Fuel and bounds.\<close>  \<open>is_cyclic\<close> runs \<open>cyc_visit\<close> with one more unit of fuel than
  there are distinct nodes: a path without repeated nodes is no longer, and C8 proves the
  answer never runs out.  \<open>_get_deployment_specifications\<close> recurses without a visited
  set; \<open>gds_node\<close> takes the recursion depth as fuel, C22 proves some fuel suffices on
  acyclic graphs, and \<open>add\<close> runs it with Python's default recursion limit (1000), the
  exhaustion of which is \<open>RecursionError\<close>.  The loops of \<open>_split_filename\<close> and
  of \<open>_detect_is_empty\<close> over \<open>path.dirname\<close> do not end on a name of slashes or an
  absolute name; they are \<open>partial_function (option)\<close> definitions (\<open>split_filename\<close>,
  \<open>doc_paths\<close>), not returning being \<open>None\<close>, and C32 characterises when that happens.  \<open>_describe\<close> also recurses without a visited
  set: on an acyclic graph the depth of the call on a source is bounded by the number of
  sources reachable from it in one or more steps (\<open>trancl_card_less\<close>), so C36 proves a
  recursion limit larger than the graph plus the frames already in use (\<open>depth\<close>, the
  stack depth at which \<open>description\<close> is read) enough, and \<open>description\<close> maps running out to
  \<open>RecursionError\<close>.

  \<^bold>\<open>Modelling choices.\<close>  App sources, manifests, \<open>semantic_version.Spec\<close>, the
  installation graph (\<open>AppInstallationGraph\<close>: an ordered map from app id to installation,
  removal dropping the back links) and the installation action object live outside src/
  and are modelled from the design.  Python sets iterated by the code (\<open>removal_list\<close>
  of the set action, input-group names) are taken in sorted order.  Sources are compared
  by value.

  \<^bold>\<open>Not modelled.\<close>  Archive export, tar, gzip, file and directory I/O and the JSON
  encoder are I/O (\<open>AppServerClass.add_source\<close>, \<open>get_source\<close>, the repository listing
  of \<open>load\<close>, the files \<open>save\<close> and \<open>partition\<close> write, the archives
  \<open>AppServerClassUpdate.save\<close> builds and the installation-actions file
  \<open>partition\<close> writes when it has packages).
  Of \<open>AppDeploymentPackage\<close>, \<open>export\<close>, \<open>_export\<close> and \<open>_ignore_assets\<close> copy files
  and write the tar archive; \<open>fnmatch\<close> is modelled without bracket sets, which no
  exclusion pattern uses; the packaging rules (outside src/) are parameters.  The
  collection of server classes takes the packages it needs from \<open>sc_env\<close>, so the two
  models meet only through that interface.  Of the dependency graph,
  \<open>print_description\<close> and \<open>export_source_package\<close> write to a stream and a tar archive,
  and the caching of \<open>description\<close> in \<open>self._description\<close> is not modelled (the model
  recomputes it).  \<open>to_html\<close> and \<open>convert_to\<close> of the JSON framework and the file and
  version converters (\<open>os.stat\<close>, \<open>semantic_version\<close>) are not modelled.
\<close>

end
